theory Spec2Isabelle
  imports Main
begin

section \<open>JavaScript values used by the views\<close>

text \<open>
  The date helpers of the pages work on what \<^verbatim>\<open>str.split(sep).map(Number)\<close> yields and
  destructuring takes from it: a number, \<^verbatim>\<open>NaN\<close>, or \<^verbatim>\<open>undefined\<close> for a missing
  array position. A number is an integer \<open>Num n\<close>, a decimal fraction \<open>Fraction n k\<close>
  standing for \<open>n / 10 ^ k\<close> where that is not an integer, or \<open>Infinity b\<close>, with \<open>b\<close>
  true for \<^verbatim>\<open>-Infinity\<close>. Values are exact: the rounding of a literal to the nearest
  double is not modelled, and \<open>-0\<close> is \<open>0\<close>. A string is a list of code units below 256.
\<close>

datatype jsval = Undefined | NaN | Num int | Fraction int nat | Infinity bool

text \<open>\<^verbatim>\<open>x || k\<close> for a numeric default \<^verbatim>\<open>k\<close>: \<^verbatim>\<open>undefined\<close>, \<^verbatim>\<open>NaN\<close> and \<^verbatim>\<open>0\<close> are falsy,
  every other number is itself.\<close>

fun js_or :: "jsval \<Rightarrow> int \<Rightarrow> jsval" where
  "js_or (Num n) k = (if n = 0 then Num k else Num n)"
| "js_or NaN k = Num k"
| "js_or Undefined k = Num k"
| "js_or (Fraction n p) k = Fraction n p"
| "js_or (Infinity b) k = Infinity b"

text \<open>
  A field of \<^verbatim>\<open>new Date(year, month, ...)\<close> is read with \<^verbatim>\<open>ToNumber\<close> and, when finite,
  truncated towards zero (\<^verbatim>\<open>ToIntegerOrInfinity\<close>); \<^verbatim>\<open>None\<close> stands for a field that is
  \<^verbatim>\<open>NaN\<close> or infinite, which makes the Date invalid.
\<close>

definition truncate_decimal :: "int \<Rightarrow> nat \<Rightarrow> int" where
  "truncate_decimal n p = (if 0 \<le> n then n div 10 ^ p else - ((- n) div 10 ^ p))"

fun to_integer :: "jsval \<Rightarrow> int option" where
  "to_integer (Num n) = Some n"
| "to_integer (Fraction n p) = Some (truncate_decimal n p)"
| "to_integer (Infinity b) = None"
| "to_integer NaN = None"
| "to_integer Undefined = None"

text \<open>\<^verbatim>\<open>a - k\<close> on a number or \<^verbatim>\<open>NaN\<close>.\<close>

fun js_minus :: "jsval \<Rightarrow> int \<Rightarrow> jsval" where
  "js_minus (Num n) k = Num (n - k)"
| "js_minus (Fraction n p) k = Fraction (n - k * 10 ^ p) p"
| "js_minus (Infinity b) k = Infinity b"
| "js_minus NaN k = NaN"
| "js_minus Undefined k = NaN"

text \<open>\<^verbatim>\<open>a === b\<close> on numbers: \<^verbatim>\<open>NaN\<close> equals nothing, itself included.\<close>

fun strict_eq :: "jsval \<Rightarrow> jsval \<Rightarrow> bool" where
  "strict_eq (Num a) (Num b) = (a = b)"
| "strict_eq (Fraction a p) (Fraction b q) = (a * 10 ^ q = b * 10 ^ p)"
| "strict_eq (Infinity a) (Infinity b) = (a = b)"
| "strict_eq Undefined Undefined = True"
| "strict_eq a b = False"

subsection \<open>String.prototype.split with a one-character separator\<close>

fun split_on :: "char \<Rightarrow> string \<Rightarrow> string list" where
  "split_on sep [] = [[]]"
| "split_on sep (x # xs) =
     (if x = sep then [] # split_on sep xs
      else (case split_on sep xs of
              [] \<Rightarrow> [[x]]
            | p # ps \<Rightarrow> (x # p) # ps))"

text \<open>Array destructuring: position \<open>i\<close> of the array, \<^verbatim>\<open>undefined\<close> past its end.\<close>

definition at_index :: "jsval list \<Rightarrow> nat \<Rightarrow> jsval" where
  "at_index xs i = (if i < length xs then xs ! i else Undefined)"

subsection \<open>Number(string)\<close>

text \<open>
  \<^verbatim>\<open>Number\<close> applied to a string follows the grammar of \<^verbatim>\<open>StringNumericLiteral\<close>. White
  space on both sides is dropped (tab, line feed, vertical tab, form feed, carriage
  return, space and the no-break space); the empty string is \<open>0\<close>. What remains is
  \<^verbatim>\<open>0x\<close>, \<^verbatim>\<open>0o\<close> or \<^verbatim>\<open>0b\<close> (in either case) followed by digits of that radix and no sign, or an
  optionally signed decimal literal: \<^verbatim>\<open>Infinity\<close>, or digits with an optional fraction
  (\<^verbatim>\<open>12\<close>, \<^verbatim>\<open>12.\<close>, \<^verbatim>\<open>12.5\<close>, \<^verbatim>\<open>.5\<close>) and an optional exponent (\<^verbatim>\<open>e\<close> or \<^verbatim>\<open>E\<close>, an optional
  sign, digits). Every other string is \<^verbatim>\<open>NaN\<close>.
\<close>

definition digit_val :: "char \<Rightarrow> int option" where
  "digit_val c = map_of (zip ''0123456789'' [0, 1, 2, 3, 4, 5, 6, 7, 8, 9]) c"

fun digits_value :: "string \<Rightarrow> int \<Rightarrow> int option" where
  "digits_value [] acc = Some acc"
| "digits_value (c # cs) acc =
     (case digit_val c of
        None \<Rightarrow> None
      | Some d \<Rightarrow> digits_value cs (10 * acc + d))"

definition is_digit :: "char \<Rightarrow> bool" where
  "is_digit c = (digit_val c \<noteq> None)"

definition is_space :: "char \<Rightarrow> bool" where
  "is_space c =
     (c = CHR '' '' \<or> c = CHR 0x09 \<or> c = CHR 0x0A \<or> c = CHR 0x0B \<or> c = CHR 0x0C
      \<or> c = CHR 0x0D \<or> c = CHR 0xA0)"

definition trim :: "string \<Rightarrow> string" where
  "trim s = rev (dropWhile is_space (rev (dropWhile is_space s)))"

text \<open>\<^verbatim>\<open>NonDecimalIntegerLiteral\<close>: \<open>None\<close> when the text does not start with a radix prefix.\<close>

definition radix_of :: "char \<Rightarrow> int option" where
  "radix_of c = map_of (zip ''xXoObB'' [16, 16, 8, 8, 2, 2]) c"

definition radix_digit :: "char \<Rightarrow> int option" where
  "radix_digit c =
     map_of (zip ''0123456789abcdefABCDEF''
       [0, 1, 2, 3, 4, 5, 6, 7, 8, 9, 10, 11, 12, 13, 14, 15, 10, 11, 12, 13, 14, 15]) c"

fun radix_value :: "int \<Rightarrow> string \<Rightarrow> int \<Rightarrow> int option" where
  "radix_value r [] acc = Some acc"
| "radix_value r (c # cs) acc =
     (case radix_digit c of
        None \<Rightarrow> None
      | Some d \<Rightarrow> if d < r then radix_value r cs (r * acc + d) else None)"

definition non_decimal_literal :: "string \<Rightarrow> jsval option" where
  "non_decimal_literal s =
     (case s of
        c0 # c1 # ds \<Rightarrow>
          (if c0 = CHR ''0'' then
             (case radix_of c1 of
                None \<Rightarrow> None
              | Some r \<Rightarrow>
                  Some (if ds = [] then NaN
                        else (case radix_value r ds 0 of None \<Rightarrow> NaN | Some n \<Rightarrow> Num n)))
           else None)
      | _ \<Rightarrow> None)"

text \<open>\<^verbatim>\<open>ExponentPart\<close>, when there is one: \<open>None\<close> for a text that is not an exponent.\<close>

definition signed_integer :: "string \<Rightarrow> int option" where
  "signed_integer s =
     (case s of
        [] \<Rightarrow> None
      | c # cs \<Rightarrow>
          if c = CHR ''-'' then (if cs = [] then None else map_option uminus (digits_value cs 0))
          else if c = CHR ''+'' then (if cs = [] then None else digits_value cs 0)
          else digits_value (c # cs) 0)"

definition exponent_part :: "string \<Rightarrow> int option" where
  "exponent_part s =
     (case s of
        [] \<Rightarrow> Some 0
      | c # cs \<Rightarrow> if c = CHR ''e'' \<or> c = CHR ''E'' then signed_integer cs else None)"

text \<open>The number \<open>m * 10 ^ e\<close>.\<close>

definition decimal_number :: "int \<Rightarrow> int \<Rightarrow> jsval" where
  "decimal_number m e =
     (if 0 \<le> e then Num (m * 10 ^ nat e)
      else if m mod 10 ^ nat (- e) = 0 then Num (m div 10 ^ nat (- e))
      else Fraction m (nat (- e)))"

text \<open>\<^verbatim>\<open>StrUnsignedDecimalLiteral\<close>: digits, an optional point and digits, with at least
  one digit on one side of the point, then the exponent.\<close>

definition unsigned_decimal :: "string \<Rightarrow> jsval" where
  "unsigned_decimal s =
     (if s = ''Infinity'' then Infinity False
      else (let ip = takeWhile is_digit s; r = dropWhile is_digit s;
                dot = (r \<noteq> [] \<and> hd r = CHR ''.'');
                fp = (if dot then takeWhile is_digit (tl r) else []);
                rest = (if dot then dropWhile is_digit (tl r) else r)
            in if ip = [] \<and> fp = [] then NaN
               else (case (digits_value (ip @ fp) 0, exponent_part rest) of
                       (Some m, Some e) \<Rightarrow> decimal_number m (e - int (length fp))
                     | _ \<Rightarrow> NaN)))"

fun negate :: "jsval \<Rightarrow> jsval" where
  "negate (Num n) = Num (- n)"
| "negate (Fraction n p) = Fraction (- n) p"
| "negate (Infinity b) = Infinity (\<not> b)"
| "negate NaN = NaN"
| "negate Undefined = NaN"

definition Number_js :: "string \<Rightarrow> jsval" where
  "Number_js s =
     (case trim s of
        [] \<Rightarrow> Num 0
      | c # cs \<Rightarrow>
          (case non_decimal_literal (c # cs) of
             Some v \<Rightarrow> v
           | None \<Rightarrow>
               if c = CHR ''-'' then negate (unsigned_decimal cs)
               else if c = CHR ''+'' then unsigned_decimal cs
               else unsigned_decimal (c # cs)))"

section \<open>The Date object\<close>

text \<open>
  A Date holds a time value: milliseconds since 1970-01-01T00:00Z, or \<^verbatim>\<open>NaN\<close> for an
  invalid Date (\<open>None\<close>). The day and year arithmetic is ECMAScript's.
\<close>

definition msPerDay :: int where
  "msPerDay = 86400000"

definition Day :: "int \<Rightarrow> int" where
  "Day t = t div msPerDay"

definition TimeWithinDay :: "int \<Rightarrow> int" where
  "TimeWithinDay t = t mod msPerDay"

definition DayFromYear :: "int \<Rightarrow> int" where
  "DayFromYear y =
     365 * (y - 1970) + (y - 1969) div 4 - (y - 1901) div 100 + (y - 1601) div 400"

definition InLeapYear :: "int \<Rightarrow> int" where
  "InLeapYear y =
     (if y mod 4 \<noteq> 0 then 0 else if y mod 100 \<noteq> 0 then 1
      else if y mod 400 \<noteq> 0 then 0 else 1)"

text \<open>
  \<^verbatim>\<open>YearFromTime\<close> is the largest year whose first day is not after the given day. It is
  computed from the mean length of a year, 146097 days in 400 years, and corrected by
  at most one year either way.
\<close>

definition YearFromDay :: "int \<Rightarrow> int" where
  "YearFromDay n =
     (let y = 1970 + (400 * n) div 146097 in
      if n < DayFromYear y then y - 1
      else if DayFromYear (y + 1) \<le> n then y + 1
      else y)"

text \<open>The day of the year on which month \<open>m\<close> (0 to 11) starts; \<open>l\<close> is 1 in a leap year.\<close>

definition MonthStart :: "int \<Rightarrow> int \<Rightarrow> int" where
  "MonthStart m l =
     (if m = 0 then 0 else if m = 1 then 31 else if m = 2 then 59 + l
      else if m = 3 then 90 + l else if m = 4 then 120 + l
      else if m = 5 then 151 + l else if m = 6 then 181 + l
      else if m = 7 then 212 + l else if m = 8 then 243 + l
      else if m = 9 then 273 + l else if m = 10 then 304 + l
      else 334 + l)"

definition MonthFromDayInYear :: "int \<Rightarrow> int \<Rightarrow> int" where
  "MonthFromDayInYear d l =
     (if d < 31 then 0 else if d < 59 + l then 1 else if d < 90 + l then 2
      else if d < 120 + l then 3 else if d < 151 + l then 4
      else if d < 181 + l then 5 else if d < 212 + l then 6
      else if d < 243 + l then 7 else if d < 273 + l then 8
      else if d < 304 + l then 9 else if d < 334 + l then 10
      else 11)"

definition YearFromTime :: "int \<Rightarrow> int" where
  "YearFromTime t = YearFromDay (Day t)"

definition DayWithinYear :: "int \<Rightarrow> int" where
  "DayWithinYear t = Day t - DayFromYear (YearFromTime t)"

definition MonthFromTime :: "int \<Rightarrow> int" where
  "MonthFromTime t = MonthFromDayInYear (DayWithinYear t) (InLeapYear (YearFromTime t))"

definition DateFromTime :: "int \<Rightarrow> int" where
  "DateFromTime t =
     DayWithinYear t - MonthStart (MonthFromTime t) (InLeapYear (YearFromTime t)) + 1"

definition HourFromTime :: "int \<Rightarrow> int" where
  "HourFromTime t = TimeWithinDay t div 3600000"

definition MinFromTime :: "int \<Rightarrow> int" where
  "MinFromTime t = (TimeWithinDay t div 60000) mod 60"

definition MakeDay :: "int \<Rightarrow> int \<Rightarrow> int \<Rightarrow> int" where
  "MakeDay year month date =
     (let ym = year + month div 12; mn = month mod 12
      in DayFromYear ym + MonthStart mn (InLeapYear ym) + date - 1)"

definition MakeTime :: "int \<Rightarrow> int \<Rightarrow> int \<Rightarrow> int \<Rightarrow> int" where
  "MakeTime hour minute sec ms = hour * 3600000 + minute * 60000 + sec * 1000 + ms"

definition MakeDate :: "int \<Rightarrow> int \<Rightarrow> int" where
  "MakeDate day time = day * msPerDay + time"

definition TimeClip :: "int \<Rightarrow> int option" where
  "TimeClip t = (if abs t \<le> 8640000000000000 then Some t else None)"

text \<open>
  The viewer's clock: the time value \<^verbatim>\<open>new Date()\<close> reads, and the offset of the
  viewer's local time from UTC in milliseconds (negative west of Greenwich). One pass
  over the helpers reads one clock; the offset is fixed, so daylight-saving changes are
  outside the model.
\<close>

record clock =
  now_ms :: int
  tza :: int

definition LocalTime :: "clock \<Rightarrow> int \<Rightarrow> int" where
  "LocalTime c t = t + tza c"

definition UTC :: "clock \<Rightarrow> int \<Rightarrow> int" where
  "UTC c t = t - tza c"

text \<open>
  \<^verbatim>\<open>new Date(year, month, date, hours, minutes)\<close>: the fields are local time, a
  \<^verbatim>\<open>NaN\<close> or infinite field gives an invalid Date, and a year from 0 to 99 means 1900 to
  1999.
\<close>

definition new_Date :: "clock \<Rightarrow> jsval \<Rightarrow> jsval \<Rightarrow> jsval \<Rightarrow> jsval \<Rightarrow> jsval \<Rightarrow> int option" where
  "new_Date c year month date hours minutes =
     (case those (map to_integer [year, month, date, hours, minutes]) of
        Some [y, m, dt, h, mi] \<Rightarrow>
          (let yr = (if 0 \<le> y \<and> y \<le> 99 then 1900 + y else y)
           in TimeClip (UTC c (MakeDate (MakeDay yr m dt) (MakeTime h mi 0 0))))
      | _ \<Rightarrow> None)"

definition getFullYear :: "clock \<Rightarrow> int option \<Rightarrow> jsval" where
  "getFullYear c d = (case d of None \<Rightarrow> NaN | Some t \<Rightarrow> Num (YearFromTime (LocalTime c t)))"

definition getMonth :: "clock \<Rightarrow> int option \<Rightarrow> jsval" where
  "getMonth c d = (case d of None \<Rightarrow> NaN | Some t \<Rightarrow> Num (MonthFromTime (LocalTime c t)))"

definition getDate :: "clock \<Rightarrow> int option \<Rightarrow> jsval" where
  "getDate c d = (case d of None \<Rightarrow> NaN | Some t \<Rightarrow> Num (DateFromTime (LocalTime c t)))"

definition getHours :: "clock \<Rightarrow> int option \<Rightarrow> jsval" where
  "getHours c d = (case d of None \<Rightarrow> NaN | Some t \<Rightarrow> Num (HourFromTime (LocalTime c t)))"

definition getMinutes :: "clock \<Rightarrow> int option \<Rightarrow> jsval" where
  "getMinutes c d = (case d of None \<Rightarrow> NaN | Some t \<Rightarrow> Num (MinFromTime (LocalTime c t)))"

text \<open>\<^verbatim>\<open>a < b\<close> on two Dates compares their time values; it is false when one is invalid.\<close>

definition date_lt :: "int option \<Rightarrow> int option \<Rightarrow> bool" where
  "date_lt a b = (case a of None \<Rightarrow> False | Some x \<Rightarrow> (case b of None \<Rightarrow> False | Some y \<Rightarrow> x < y))"

subsection \<open>new Date(string)\<close>

text \<open>
  The two shapes of the ECMAScript date-time string format that the views build from an
  appointment: a date alone, \<^verbatim>\<open>YYYY-MM-DD\<close>, is read as UTC midnight; a date and a
  time without a zone, \<^verbatim>\<open>YYYY-MM-DDTHH:mm\<close> or \<^verbatim>\<open>YYYY-MM-DDTHH:mm:ss\<close>, is read
  as local time. Months are 01 to 12, hours 00 to 23, minutes and seconds 00 to 59; a
  day from 01 to 31 is accepted in every month and carried into the next one, as V8
  does. Every other string is classed as unparsable: what an engine makes of it is its
  own fallback.
\<close>

definition fixed_digits :: "nat \<Rightarrow> string \<Rightarrow> int option" where
  "fixed_digits n s = (if length s = n then digits_value s 0 else None)"

definition parse_iso_date :: "string \<Rightarrow> (int \<times> int \<times> int) option" where
  "parse_iso_date s =
     (case split_on CHR ''-'' s of
        [ys, ms, ds] \<Rightarrow>
          (case those [fixed_digits 4 ys, fixed_digits 2 ms, fixed_digits 2 ds] of
             Some [y, m, d] \<Rightarrow>
               if 1 \<le> m \<and> m \<le> 12 \<and> 1 \<le> d \<and> d \<le> 31 then Some (y, m, d) else None
           | _ \<Rightarrow> None)
      | _ \<Rightarrow> None)"

definition parse_iso_time :: "string \<Rightarrow> (int \<times> int \<times> int) option" where
  "parse_iso_time s =
     (let parts = split_on CHR '':'' s;
          fields = (if length parts = 2 then parts @ [''00''] else parts)
      in if length fields = 3 then
           (case those (map (fixed_digits 2) fields) of
              Some [h, mi, sec] \<Rightarrow>
                if h \<le> 23 \<and> mi \<le> 59 \<and> sec \<le> 59 then Some (h, mi, sec) else None
            | _ \<Rightarrow> None)
         else None)"

definition Date_parse :: "clock \<Rightarrow> string \<Rightarrow> int option" where
  "Date_parse c s =
     (case split_on CHR ''T'' s of
        [ds] \<Rightarrow>
          (case parse_iso_date ds of
             None \<Rightarrow> None
           | Some (y, m, d) \<Rightarrow> TimeClip (MakeDate (MakeDay y (m - 1) d) 0))
      | [ds, ts] \<Rightarrow>
          (case parse_iso_date ds of
             None \<Rightarrow> None
           | Some (y, m, d) \<Rightarrow>
               (case parse_iso_time ts of
                  None \<Rightarrow> None
                | Some (h, mi, sec) \<Rightarrow>
                    TimeClip (UTC c (MakeDate (MakeDay y (m - 1) d) (MakeTime h mi sec 0)))))
      | _ \<Rightarrow> None)"

subsection \<open>toLocaleDateString\<close>

text \<open>
  What a view shows: a fixed text, or the local calendar fields that
  \<^verbatim>\<open>toLocaleDateString('en-US', ...)\<close> prints: year, month (0 is January) and day for
  the options \<^verbatim>\<open>year, month, day\<close>, and hour and minute as well for the options that
  add \<^verbatim>\<open>hour, minute\<close>. The wording and punctuation of the printed text are the
  locale library's.
\<close>

datatype display =
  Text string
  | Long_date int int int
  | Long_date_time int int int int int

definition toLocaleDateString :: "clock \<Rightarrow> int option \<Rightarrow> display" where
  "toLocaleDateString c d =
     (case d of
        None \<Rightarrow> Text ''Invalid Date''
      | Some t \<Rightarrow>
          (let l = LocalTime c t
           in Long_date (YearFromTime l) (MonthFromTime l) (DateFromTime l)))"

definition toLocaleDateString_hm :: "clock \<Rightarrow> int option \<Rightarrow> display" where
  "toLocaleDateString_hm c d =
     (case d of
        None \<Rightarrow> Text ''Invalid Date''
      | Some t \<Rightarrow>
          (let l = LocalTime c t
           in Long_date_time (YearFromTime l) (MonthFromTime l) (DateFromTime l)
                (HourFromTime l) (MinFromTime l)))"

section \<open>Appointments and their queue status\<close>

record Appointment =
  id_appt :: int
  ticket_number :: string
  appointment_type :: string
  appointment_date :: string
  scheduled_time :: string
  status :: string

record QueueStatus =
  position :: int
  estimated_wait_time :: int

section \<open>Formatting (Appointments.tsx, Dashboard.tsx, MyQueue)\<close>

text \<open>The fallback of \<^verbatim>\<open>formatDate\<close> and \<^verbatim>\<open>formatDateTime\<close> for a string the Date
  constructor could not read: a local date from the three components.\<close>

definition date_from_parts :: "clock \<Rightarrow> string \<Rightarrow> string \<Rightarrow> display" where
  "date_from_parts c dateString invalid =
     (let parts = split_on CHR ''-'' dateString
      in if length parts = 3 then
           (let nums = map Number_js parts;
                year = at_index nums 0; month = at_index nums 1; day = at_index nums 2;
                parsedDate = new_Date c year (js_minus month 1) day (Num 0) (Num 0)
            in if parsedDate \<noteq> None then toLocaleDateString c parsedDate
               else Text invalid)
         else Text invalid)"

definition formatDate :: "clock \<Rightarrow> string \<Rightarrow> display" where
  "formatDate c dateString =
     (if dateString = [] then Text ''N/A''
      else (let date = Date_parse c dateString
            in if date = None then date_from_parts c dateString ''Invalid Date''
               else toLocaleDateString c date))"

text \<open>An optional argument is \<open>None\<close> when the caller leaves it out; the empty string is
  as falsy as \<^verbatim>\<open>undefined\<close>.\<close>

definition given :: "string option \<Rightarrow> bool" where
  "given s = (case s of None \<Rightarrow> False | Some t \<Rightarrow> t \<noteq> [])"

definition formatDateTime :: "clock \<Rightarrow> string \<Rightarrow> string option \<Rightarrow> display" where
  "formatDateTime c dateString timeString =
     (if dateString = [] then Text ''N/A''
      else (let date = (case timeString of
                          None \<Rightarrow> Date_parse c dateString
                        | Some ts \<Rightarrow>
                            if ts \<noteq> [] then Date_parse c (dateString @ ''T'' @ ts)
                            else Date_parse c dateString)
            in if date = None then date_from_parts c dateString ''Invalid Date/Time''
               else toLocaleDateString_hm c date))"

definition MyQueue_formatDateTime :: "clock \<Rightarrow> string \<Rightarrow> string option \<Rightarrow> display" where
  "MyQueue_formatDateTime c dateString timeString =
     (let iso = (case timeString of
                   None \<Rightarrow> dateString
                 | Some ts \<Rightarrow> if ts \<noteq> [] then dateString @ ''T'' @ ts else dateString);
          d = Date_parse c iso
      in toLocaleDateString_hm c d)"

section \<open>Eligibility helpers\<close>

text \<open>
  \<^verbatim>\<open>const [y, m, d] = dateString.split('-').map(Number)\<close> followed by
  \<^verbatim>\<open>new Date(y, (m || 1) - 1, d || 1, hours, minutes)\<close>.
\<close>

definition local_date_of :: "clock \<Rightarrow> string \<Rightarrow> jsval \<Rightarrow> jsval \<Rightarrow> int option" where
  "local_date_of c dateString hours minutes =
     (let parts = map Number_js (split_on CHR ''-'' dateString);
          y = at_index parts 0; m = at_index parts 1; d = at_index parts 2
      in new_Date c y (js_minus (js_or m 1) 1) (js_or d 1) hours minutes)"

definition same_local_day :: "clock \<Rightarrow> int option \<Rightarrow> int option \<Rightarrow> bool" where
  "same_local_day c a b =
     (strict_eq (getFullYear c a) (getFullYear c b) \<and>
      strict_eq (getMonth c a) (getMonth c b) \<and>
      strict_eq (getDate c a) (getDate c b))"

text \<open>MyQueue's helpers have neither the empty-string guard nor the try block.\<close>

definition MyQueue_isToday :: "clock \<Rightarrow> string \<Rightarrow> bool" where
  "MyQueue_isToday c dateString =
     (let apptLocal = local_date_of c dateString (Num 0) (Num 0);
          today = Some (now_ms c)
      in same_local_day c apptLocal today)"

definition MyQueue_isPastAppointment :: "clock \<Rightarrow> string \<Rightarrow> string option \<Rightarrow> bool" where
  "MyQueue_isPastAppointment c dateString timeString =
     (let apptDate = local_date_of c dateString (Num 0) (Num 0);
          today = Some (now_ms c);
          midnight = new_Date c (getFullYear c today) (getMonth c today) (getDate c today)
                       (Num 0) (Num 0)
      in if date_lt apptDate midnight then True
         else (case timeString of
                 None \<Rightarrow> False
               | Some ts \<Rightarrow>
                   if MyQueue_isToday c dateString \<and> ts \<noteq> [] then
                     (let tparts = map Number_js (split_on CHR '':'' ts);
                          hours = at_index tparts 0; minutes = at_index tparts 1;
                          apptDateTime =
                            local_date_of c dateString (js_or hours 0) (js_or minutes 0)
                      in date_lt apptDateTime (Some (now_ms c)))
                   else False))"

text \<open>
  Appointments.tsx and Dashboard.tsx: the same bodies behind \<^verbatim>\<open>if (!dateString) return
  false\<close> and inside \<^verbatim>\<open>try { ... } catch { return false }\<close>. Nothing in the body can
  throw (\<^verbatim>\<open>split\<close>, \<^verbatim>\<open>Number\<close> and the Date constructor accept every string and
  number), so the catch branch is never taken.
\<close>

definition isToday :: "clock \<Rightarrow> string \<Rightarrow> bool" where
  "isToday c dateString =
     (if dateString = [] then False
      else (let apptLocal = local_date_of c dateString (Num 0) (Num 0);
                today = Some (now_ms c)
            in same_local_day c apptLocal today))"

definition isPastAppointment :: "clock \<Rightarrow> string \<Rightarrow> string option \<Rightarrow> bool" where
  "isPastAppointment c dateString timeString =
     (if dateString = [] then False
      else (let apptDate = local_date_of c dateString (Num 0) (Num 0);
                today = Some (now_ms c);
                midnight = new_Date c (getFullYear c today) (getMonth c today)
                             (getDate c today) (Num 0) (Num 0)
            in if date_lt apptDate midnight then True
               else (case timeString of
                       None \<Rightarrow> False
                     | Some ts \<Rightarrow>
                         if isToday c dateString \<and> ts \<noteq> [] then
                           (let tparts = map Number_js (split_on CHR '':'' ts);
                                hours = at_index tparts 0; minutes = at_index tparts 1;
                                apptDateTime =
                                  local_date_of c dateString (js_or hours 0) (js_or minutes 0)
                            in date_lt apptDateTime (Some (now_ms c)))
                         else False)))"

definition canCheckIn :: "clock \<Rightarrow> Appointment \<Rightarrow> bool" where
  "canCheckIn c appointment =
     (status appointment = ''scheduled'' \<and>
      isToday c (appointment_date appointment) \<and>
      \<not> isPastAppointment c (appointment_date appointment)
          (Some (scheduled_time appointment)))"


section \<open>The shared API client\<close>

text \<open>A JSON value, as an error payload's \<^verbatim>\<open>detail\<close> field or a toast's content.\<close>

datatype json =
  JNull
  | JBool bool
  | JNumber int
  | JString string
  | JArray "json list"
  | JObject "(string \<times> json) list"

text \<open>JavaScript truthiness: arrays and objects are truthy, also when empty.\<close>

fun truthy :: "json \<Rightarrow> bool" where
  "truthy JNull = False"
| "truthy (JBool b) = b"
| "truthy (JNumber n) = (n \<noteq> 0)"
| "truthy (JString s) = (s \<noteq> [])"
| "truthy (JArray xs) = True"
| "truthy (JObject kvs) = True"

text \<open>
  A rejected request: \<^verbatim>\<open>error.response?.status\<close> and
  \<^verbatim>\<open>error.response?.data?.detail\<close>, each \<open>None\<close> when the chain ends in
  \<^verbatim>\<open>undefined\<close>.
\<close>

record axios_error =
  response_status :: "int option"
  response_detail :: "json option"

text \<open>
  The browser state the response interceptor touches: \<^verbatim>\<open>localStorage\<close> and
  \<^verbatim>\<open>window.location.href\<close>. A handled response is the promise the interceptor returns:
  \<open>Inl\<close> a rejection with the error, \<open>Inr\<close> the response.
\<close>

record browser =
  localStorage :: "string \<rightharpoonup> string"
  location_href :: string

definition removeItem :: "string \<Rightarrow> browser \<Rightarrow> browser" where
  "removeItem key w = w\<lparr>localStorage := (localStorage w)(key := None)\<rparr>"

definition on_fulfilled :: "'r \<Rightarrow> browser \<Rightarrow> browser \<times> (axios_error + 'r)" where
  "on_fulfilled response w = (w, Inr response)"

definition on_rejected :: "axios_error \<Rightarrow> browser \<Rightarrow> browser \<times> (axios_error + 'r)" where
  "on_rejected error w =
     (if response_status error = Some 401 then
        ((removeItem ''token'' w)\<lparr>location_href := ''/login''\<rparr>, Inl error)
      else (w, Inl error))"

text \<open>
  Every method of \<^verbatim>\<open>appointmentsAPI\<close> and \<^verbatim>\<open>queueAPI\<close> calls the one axios instance, so
  the outcome of a request passes the response interceptor before the page that awaits it
  sees it.
\<close>

definition through_interceptor ::
  "axios_error + 'r \<Rightarrow> browser \<Rightarrow> browser \<times> (axios_error + 'r)" where
  "through_interceptor outcome w =
     (case outcome of
        Inr response \<Rightarrow> on_fulfilled response w
      | Inl error \<Rightarrow> on_rejected error w)"

section \<open>The pages: state, backend and effects\<close>

text \<open>
  The backend as the pages see it: the outcome of each request, \<open>Inl\<close> a rejection. The
  request interceptor attaches the stored token to a request; what the backend makes of
  it is part of the outcome.
\<close>

record backend =
  getMyAppointments :: "axios_error + Appointment list"
  getQueuePosition :: "int \<Rightarrow> axios_error + QueueStatus"
  checkIn :: "int \<Rightarrow> axios_error + unit"
  cancelAppointment :: "int \<Rightarrow> axios_error + unit"

text \<open>What a handler does besides changing the state, in the order it does it.\<close>

datatype effect =
  GET_appointments_my
  | GET_queue_position int
  | POST_queue_checkin int
  | PUT_appointments_cancel int
  | Toast_error json
  | Toast_success string
  | Console_error

text \<open>
  The state of the Appointments page (the Dashboard holds the same three fields), and the
  browser state it runs in. An assignment to \<^verbatim>\<open>window.location.href\<close> starts a navigation;
  the handler that made it runs on until the document is unloaded, which the model does
  not cut short.
\<close>

record page =
  appointments :: "Appointment list"
  queueStatus :: "int \<rightharpoonup> QueueStatus"
  loading :: bool
  appointmentToCancel :: "Appointment option"
  effects :: "effect list"
  window :: browser

definition emit :: "effect list \<Rightarrow> page \<Rightarrow> page" where
  "emit es p = p\<lparr>effects := effects p @ es\<rparr>"

subsection \<open>fetchAppointments\<close>

text \<open>
  The loop over the active appointments: each position is requested in turn; a reply is
  merged into the previous map by \<^verbatim>\<open>setQueueStatus(prev => ({...prev, [id]: data}))\<close>,
  a rejection is caught inside the loop body and logged to the console.
\<close>

fun fetch_queue_status :: "backend \<Rightarrow> Appointment list \<Rightarrow> page \<Rightarrow> page" where
  "fetch_queue_status b [] p = p"
| "fetch_queue_status b (appointment # rest) p =
     fetch_queue_status b rest
       (case through_interceptor (getQueuePosition b (id_appt appointment)) (window p) of
          (w, Inr data) \<Rightarrow>
            (emit [GET_queue_position (id_appt appointment)] p)
              \<lparr>queueStatus := (queueStatus p)(id_appt appointment \<mapsto> data), window := w\<rparr>
        | (w, Inl error) \<Rightarrow>
            (emit [GET_queue_position (id_appt appointment), Console_error] p)
              \<lparr>window := w\<rparr>)"

definition activeAppointments :: "Appointment list \<Rightarrow> Appointment list" where
  "activeAppointments data =
     filter (\<lambda>apt. status apt = ''confirmed'' \<or> status apt = ''in_progress'') data"

definition fetchAppointments :: "backend \<Rightarrow> page \<Rightarrow> page" where
  "fetchAppointments b p =
     (let p1 = emit [GET_appointments_my] (p\<lparr>loading := True\<rparr>)
      in (case through_interceptor (getMyAppointments b) (window p1) of
            (w, Inl error) \<Rightarrow>
              (emit [Toast_error (JString ''Failed to fetch appointments''), Console_error] p1)
                \<lparr>loading := False, window := w\<rparr>
          | (w, Inr data) \<Rightarrow>
              (fetch_queue_status b (activeAppointments data)
                 (p1\<lparr>appointments := data, window := w\<rparr>))
                \<lparr>loading := False\<rparr>))"

text \<open>Dashboard.tsx: the same pass, without \<^verbatim>\<open>setLoading(true)\<close> at its start.\<close>

definition Dashboard_fetchAppointments :: "backend \<Rightarrow> page \<Rightarrow> page" where
  "Dashboard_fetchAppointments b p =
     (let p1 = emit [GET_appointments_my] p
      in (case through_interceptor (getMyAppointments b) (window p1) of
            (w, Inl error) \<Rightarrow>
              (emit [Toast_error (JString ''Failed to fetch appointments'')] p1)
                \<lparr>loading := False, window := w\<rparr>
          | (w, Inr data) \<Rightarrow>
              (fetch_queue_status b (activeAppointments data)
                 (p1\<lparr>appointments := data, window := w\<rparr>))
                \<lparr>loading := False\<rparr>))"

subsection \<open>MyQueue.fetchQueueData\<close>

text \<open>
  MyQueue keeps no map: each appointment carries its own \<^verbatim>\<open>queueInfo\<close>, \<^verbatim>\<open>null\<close>
  (\<open>None\<close>) when the appointment is not today's or its request was rejected, and
  \<^verbatim>\<open>setQueueData\<close> replaces the whole list. The requests of today's appointments are
  made together under \<^verbatim>\<open>Promise.all\<close>; each outcome passes the response interceptor.
\<close>

record queue_page =
  queueData :: "(Appointment \<times> QueueStatus option) list"
  queue_loading :: bool
  refreshing :: bool
  queue_effects :: "effect list"
  queue_window :: browser

definition queue_emit :: "effect list \<Rightarrow> queue_page \<Rightarrow> queue_page" where
  "queue_emit es q = q\<lparr>queue_effects := queue_effects q @ es\<rparr>"

definition MyQueue_active :: "Appointment list \<Rightarrow> Appointment list" where
  "MyQueue_active data =
     filter (\<lambda>apt. status apt = ''confirmed'' \<or> status apt = ''in_progress''
                    \<or> status apt = ''scheduled'') data"

definition queue_info_of :: "clock \<Rightarrow> backend \<Rightarrow> Appointment \<Rightarrow> QueueStatus option" where
  "queue_info_of c b appointment =
     (if \<not> MyQueue_isToday c (appointment_date appointment) then None
      else (case getQueuePosition b (id_appt appointment) of
              Inr data \<Rightarrow> Some data
            | Inl error \<Rightarrow> None))"

definition queue_requests :: "clock \<Rightarrow> Appointment list \<Rightarrow> effect list" where
  "queue_requests c as =
     map (\<lambda>a. GET_queue_position (id_appt a))
       (filter (\<lambda>a. MyQueue_isToday c (appointment_date a)) as)"

definition queue_responses :: "clock \<Rightarrow> backend \<Rightarrow> Appointment list \<Rightarrow> browser \<Rightarrow> browser" where
  "queue_responses c b as w =
     fold (\<lambda>a w. fst (through_interceptor (getQueuePosition b (id_appt a)) w))
       (filter (\<lambda>a. MyQueue_isToday c (appointment_date a)) as) w"

definition fetchQueueData :: "clock \<Rightarrow> backend \<Rightarrow> queue_page \<Rightarrow> queue_page" where
  "fetchQueueData c b q =
     (let q1 = queue_emit [GET_appointments_my] (q\<lparr>refreshing := True\<rparr>)
      in (case through_interceptor (getMyAppointments b) (queue_window q1) of
            (w, Inl error) \<Rightarrow>
              (queue_emit [Toast_error (JString ''Failed to fetch queue information'')] q1)
                \<lparr>queue_loading := False, refreshing := False, queue_window := w\<rparr>
          | (w, Inr data) \<Rightarrow>
              (let active = MyQueue_active data;
                   queueResults = map (\<lambda>a. (a, queue_info_of c b a)) active
               in (queue_emit (queue_requests c active) q1)
                    \<lparr>queueData := queueResults, queue_loading := False,
                      refreshing := False, queue_window := queue_responses c b active w\<rparr>)))"

subsection \<open>Check-in and cancellation\<close>

definition check_in_refusal :: "clock \<Rightarrow> Appointment \<Rightarrow> string" where
  "check_in_refusal c appointment =
     (if status appointment \<noteq> ''scheduled'' then
        ''Only scheduled appointments can be checked in''
      else if \<not> isToday c (appointment_date appointment) then
        ''You can only check in on the appointment date''
      else if isPastAppointment c (appointment_date appointment)
                (Some (scheduled_time appointment)) then
        ''Cannot check in for past appointments''
      else ''Check-in not available for this appointment'')"

text \<open>What the catch block of \<^verbatim>\<open>handleCheckIn\<close> hands to \<^verbatim>\<open>toast.error\<close>.\<close>

definition check_in_failure :: "axios_error \<Rightarrow> json" where
  "check_in_failure error =
     (case response_detail error of
        None \<Rightarrow> JString ''Failed to check in. Please try again.''
      | Some detail \<Rightarrow>
          if truthy detail then detail
          else JString ''Failed to check in. Please try again.'')"

definition handleCheckIn :: "clock \<Rightarrow> backend \<Rightarrow> int \<Rightarrow> page \<Rightarrow> page" where
  "handleCheckIn c b appointmentId p =
     (case find (\<lambda>apt. id_appt apt = appointmentId) (appointments p) of
        None \<Rightarrow> emit [Toast_error (JString ''Appointment not found'')] p
      | Some appointment \<Rightarrow>
          if \<not> canCheckIn c appointment then
            emit [Toast_error (JString (check_in_refusal c appointment))] p
          else (case through_interceptor (checkIn b appointmentId) (window p) of
                  (w, Inr ok) \<Rightarrow>
                    fetchAppointments b
                      ((emit [POST_queue_checkin appointmentId,
                              Toast_success ''Checked in successfully!''] p)
                         \<lparr>window := w\<rparr>)
                | (w, Inl error) \<Rightarrow>
                    (emit [POST_queue_checkin appointmentId, Console_error,
                           Toast_error (check_in_failure error)] p)
                      \<lparr>window := w\<rparr>))"

definition handleCancelAppointment :: "backend \<Rightarrow> page \<Rightarrow> page" where
  "handleCancelAppointment b p =
     (case appointmentToCancel p of
        None \<Rightarrow> p
      | Some appointment \<Rightarrow>
          (case through_interceptor (cancelAppointment b (id_appt appointment)) (window p) of
             (w, Inr ok) \<Rightarrow>
               fetchAppointments b
                 ((emit [PUT_appointments_cancel (id_appt appointment),
                         Toast_success ''Appointment cancelled successfully''] p)
                    \<lparr>appointmentToCancel := None, window := w\<rparr>)
           | (w, Inl error) \<Rightarrow>
               (emit [PUT_appointments_cancel (id_appt appointment),
                      Toast_error (JString ''Failed to cancel appointment''),
                      Console_error] p)
                 \<lparr>window := w\<rparr>))"

text \<open>MyQueue's check-in handler sends the request for whatever id it is given.\<close>

definition MyQueue_handleCheckIn :: "clock \<Rightarrow> backend \<Rightarrow> int \<Rightarrow> queue_page \<Rightarrow> queue_page" where
  "MyQueue_handleCheckIn c b appointmentId q =
     (case through_interceptor (checkIn b appointmentId) (queue_window q) of
        (w, Inr ok) \<Rightarrow>
          fetchQueueData c b
            ((queue_emit [POST_queue_checkin appointmentId,
                          Toast_success ''Checked in successfully!''] q)
               \<lparr>queue_window := w\<rparr>)
      | (w, Inl error) \<Rightarrow>
          (queue_emit [POST_queue_checkin appointmentId,
                       Toast_error (JString ''Failed to check in'')] q)
            \<lparr>queue_window := w\<rparr>)"

section \<open>Derived notions used in the statements\<close>



text \<open>A request that was rejected with status 401, and the browser once the response
  interceptor has seen such a rejection: no token, and on its way to the login page.\<close>

definition unauthorized :: "axios_error + 'r \<Rightarrow> bool" where
  "unauthorized outcome =
     (case outcome of Inl error \<Rightarrow> response_status error = Some 401 | Inr response \<Rightarrow> False)"

definition signed_out :: "browser \<Rightarrow> browser" where
  "signed_out w = \<lparr>localStorage = (localStorage w)(''token'' := None), location_href = ''/login''\<rparr>"

subsection \<open>Calendar dates as the specification speaks of them\<close>

text \<open>The length of month \<open>m\<close> (0 is January); \<open>l\<close> is 1 in a leap year.\<close>

definition DaysInMonth :: "int \<Rightarrow> int \<Rightarrow> int" where
  "DaysInMonth m l =
     (if m = 1 then 28 + l
      else if m = 3 \<or> m = 5 \<or> m = 8 \<or> m = 10 then 30
      else 31)"

text \<open>A date of the calendar: year, month 1 to 12, and a day that the month has.\<close>

definition valid_date :: "int \<Rightarrow> int \<Rightarrow> int \<Rightarrow> bool" where
  "valid_date y m d =
     (1 \<le> m \<and> m \<le> 12 \<and> 1 \<le> d \<and> d \<le> DaysInMonth (m - 1) (InLeapYear y))"

text \<open>One calendar date strictly before another: year, then month, then day.\<close>

definition calendar_date_before :: "int \<times> int \<times> int \<Rightarrow> int \<times> int \<times> int \<Rightarrow> bool" where
  "calendar_date_before a b =
     (case a of (y, m, d) \<Rightarrow>
        (case b of (y', m', d') \<Rightarrow>
           y < y' \<or> (y = y' \<and> (m < m' \<or> (m = m' \<and> d < d')))))"

text \<open>Today's calendar date on the viewer's clock, the month counted from 1.\<close>

definition today_of :: "clock \<Rightarrow> int \<times> int \<times> int" where
  "today_of c =
     (let l = LocalTime c (now_ms c)
      in (YearFromTime l, MonthFromTime l + 1, DateFromTime l))"

text \<open>On today's date, a time of day (hours, minutes, seconds) is before now when it is
  less than the time elapsed since local midnight.\<close>

definition time_of_day_before_now :: "clock \<Rightarrow> int \<times> int \<times> int \<Rightarrow> bool" where
  "time_of_day_before_now c hms =
     (case hms of (h, mi, s) \<Rightarrow>
        MakeTime h mi s 0 < TimeWithinDay (LocalTime c (now_ms c)))"

text \<open>
  \<^verbatim>\<open>isPast\<close> in the words of the specification: the appointment's calendar date is
  strictly before today's, or it is today's, a time is given, and the date and time
  together are strictly before now.
\<close>

definition isPast_words ::
  "clock \<Rightarrow> int \<times> int \<times> int \<Rightarrow> (int \<times> int \<times> int) option \<Rightarrow> bool" where
  "isPast_words c date time =
     (calendar_date_before date (today_of c) \<or>
      (date = today_of c \<and>
       (case time of None \<Rightarrow> False | Some hms \<Rightarrow> time_of_day_before_now c hms)))"

text \<open>A clock a browser can show: a time value at or after the epoch and inside the range
  of Date, and an offset from UTC of at most a day.\<close>

definition clock_in_range :: "clock \<Rightarrow> bool" where
  "clock_in_range c =
     (0 \<le> now_ms c \<and> now_ms c \<le> 8640000000000000 \<and> abs (tza c) \<le> 86400000)"

text \<open>The \<^verbatim>\<open>y\<close> of \<^verbatim>\<open>const [y, m, d] = dateString.split('-').map(Number)\<close>.\<close>

definition year_component :: "string \<Rightarrow> jsval" where
  "year_component dateString = at_index (map Number_js (split_on CHR ''-'' dateString)) 0"

subsection \<open>Concrete values for the scenarios\<close>

text \<open>A request that was rejected without a response (the network is down).\<close>

definition no_reply :: axios_error where
  "no_reply = \<lparr>response_status = None, response_detail = None\<rparr>"

definition appt :: "int \<Rightarrow> string \<Rightarrow> string \<Rightarrow> string \<Rightarrow> Appointment" where
  "appt i d t s =
     \<lparr>id_appt = i, ticket_number = ''T'', appointment_type = ''new_id'',
      appointment_date = d, scheduled_time = t, status = s\<rparr>"

text \<open>A backend that lists \<open>data\<close>, answers position requests by \<open>positions\<close> and
  accepts every check-in and cancellation.\<close>

definition backend_of :: "Appointment list \<Rightarrow> (int \<Rightarrow> axios_error + QueueStatus) \<Rightarrow> backend" where
  "backend_of data positions =
     \<lparr>getMyAppointments = Inr data, getQueuePosition = positions,
      checkIn = (\<lambda>i. Inr ()), cancelAppointment = (\<lambda>i. Inr ())\<rparr>"

text \<open>The pages as their \<^verbatim>\<open>useState\<close> calls initialise them, in the browser of a user
  who has signed in.\<close>

definition signed_in :: browser where
  "signed_in = \<lparr>localStorage = [''token'' \<mapsto> ''jwt''], location_href = ''/appointments''\<rparr>"

definition initial_page :: page where
  "initial_page =
     \<lparr>appointments = [], queueStatus = Map.empty, loading = True,
      appointmentToCancel = None, effects = [], window = signed_in\<rparr>"

definition initial_queue_page :: queue_page where
  "initial_queue_page =
     \<lparr>queueData = [], queue_loading = True, refreshing = False, queue_effects = [],
      queue_window = signed_in\<rparr>"

text \<open>2025-03-10, 12:00 UTC, read by a viewer on UTC and by one five hours west of it.\<close>

definition noon_10_march_2025 :: clock where
  "noon_10_march_2025 = \<lparr>now_ms = 1741608000000, tza = 0\<rparr>"

definition five_hours_west :: clock where
  "five_hours_west = \<lparr>now_ms = 1741608000000, tza = - 18000000\<rparr>"

text \<open>Twenty seconds after that noon, and noon of 2025-01-01, both on UTC.\<close>

definition noon_and_20_seconds :: clock where
  "noon_and_20_seconds = \<lparr>now_ms = 1741608020000, tza = 0\<rparr>"

definition new_year_2025 :: clock where
  "new_year_2025 = \<lparr>now_ms = 1735732800000, tza = 0\<rparr>"

text \<open>Noon of 1980-01-01 on UTC.\<close>

definition new_year_1980 :: clock where
  "new_year_1980 = \<lparr>now_ms = 315576000000, tza = 0\<rparr>"

section \<open>Properties\<close>

lemma split_on_nonempty: "split_on sep s \<noteq> []"
  by (induction s) (auto split: list.splits)

subsection \<open>Years and days\<close>

lemma div_upper: fixes a k :: int assumes "0 < k" shows "k * (a div k) \<le> a"
  using mult_div_mod_eq [of k a] pos_mod_sign [of k a] assms by linarith

lemma div_lower: fixes a k :: int assumes "0 < k" shows "a - (k - 1) \<le> k * (a div k)"
  using mult_div_mod_eq [of k a] pos_mod_bound [of k a] assms by linarith

lemma div_succ:
  fixes a k :: int
  assumes k: "0 < k"
  shows "(a + 1) div k = a div k + (if (a + 1) mod k = 0 then 1 else 0)"
proof (cases "a mod k + 1 = k")
  case True
  have e: "k * (a div k) + a mod k = a" by (rule mult_div_mod_eq)
  have "k * (a div k + 1) = k * (a div k) + k" by (simp add: algebra_simps)
  with e True have eq: "a + 1 = k * (a div k + 1) + 0" by linarith
  have "(a + 1) div k = a div k + 1"
    by (rule int_div_pos_eq [OF eq]) (use k in simp_all)
  moreover have "(a + 1) mod k = 0"
    by (rule int_mod_pos_eq [OF eq]) (use k in simp_all)
  ultimately show ?thesis by simp
next
  case False
  have r: "0 \<le> a mod k + 1" "a mod k + 1 < k"
    using pos_mod_sign [OF k, of a] pos_mod_bound [OF k, of a] False by linarith+
  have e: "k * (a div k) + a mod k = a" by (rule mult_div_mod_eq)
  then have eq: "a + 1 = k * (a div k) + (a mod k + 1)" by linarith
  have "(a + 1) div k = a div k"
    using eq r by (rule int_div_pos_eq)
  moreover have "(a + 1) mod k = a mod k + 1"
    using eq r by (rule int_mod_pos_eq)
  ultimately show ?thesis using pos_mod_sign [OF k, of a] by simp
qed

lemma mod_shift:
  fixes y k c :: int
  assumes k: "0 < k"
  shows "(y - k * c) mod k = y mod k"
proof -
  have e: "k * (y div k) + y mod k = y" by (rule mult_div_mod_eq)
  have "k * (y div k - c) = k * (y div k) - k * c" by (simp add: algebra_simps)
  with e have "y - k * c = k * (y div k - c) + y mod k" by linarith
  then show ?thesis
    using pos_mod_sign [OF k, of y] pos_mod_bound [OF k, of y] by (rule int_mod_pos_eq)
qed

lemma shift_mod_4: "((y::int) - 1968) mod 4 = y mod 4" using mod_shift [of 4 y 492] by simp

lemma shift_div_4: "((y::int) - 1968) div 4 = (y - 1969) div 4 + (if y mod 4 = 0 then 1 else 0)"
    using div_succ [of 4 "y - 1969"] shift_mod_4[of y] by simp

lemma shift_mod_100: "((y::int) - 1900) mod 100 = y mod 100" using mod_shift [of 100 y 19] by simp

lemma shift_div_100: "((y::int) - 1900) div 100 = (y - 1901) div 100 + (if y mod 100 = 0 then 1 else 0)"
    using div_succ [of 100 "y - 1901"] shift_mod_100[of y] by simp

lemma shift_mod_400: "((y::int) - 1600) mod 400 = y mod 400" using mod_shift [of 400 y 4] by simp

lemma shift_div_400: "((y::int) - 1600) div 400 = (y - 1601) div 400 + (if y mod 400 = 0 then 1 else 0)"
    using div_succ [of 400 "y - 1601"] shift_mod_400[of y] by simp

lemma mod_100_imp_mod_4: "(y::int) mod 4 = 0" if "y mod 100 = 0"
  proof -
    from that have "100 dvd y" by (simp add: mod_eq_0_iff_dvd)
    moreover have "(4::int) dvd 100" by simp
    ultimately have "4 dvd y" using dvd_trans by blast
    then show ?thesis by (simp add: mod_eq_0_iff_dvd)
  qed

lemma mod_400_imp_mod_100: "(y::int) mod 100 = 0" if "y mod 400 = 0"
  proof -
    from that have "100 * 4 dvd y" by (simp add: mod_eq_0_iff_dvd)
    then have "100 dvd y" by (rule dvd_mult_left)
    then show ?thesis by (simp add: mod_eq_0_iff_dvd)
  qed

lemma leap_count:
  "(if y mod 4 = 0 then 1 else 0) - (if y mod 100 = 0 then 1 else 0)
     + (if y mod 400 = 0 then 1 else (0::int)) = InLeapYear y"
  using mod_100_imp_mod_4 [of y] mod_400_imp_mod_100 [of y]
  by (cases "y mod 4 = 0"; cases "y mod 100 = 0"; cases "y mod 400 = 0")
     (simp_all add: InLeapYear_def)

lemma DayFromYear_alt:
  "DayFromYear y = 365 * (y - 1970) + (y - 1969) div 4 - (y - 1901) div 100 + (y - 1601) div 400"
  by (simp add: DayFromYear_def)

lemma DayFromYear_step: "DayFromYear (y + 1) = DayFromYear y + 365 + InLeapYear y"
proof -
  define A :: int where "A = (if y mod 4 = 0 then 1 else 0)"
  define B :: int where "B = (if y mod 100 = 0 then 1 else 0)"
  define C :: int where "C = (if y mod 400 = 0 then 1 else 0)"
  define q4 where "q4 = (y - 1969) div 4"
  define q100 where "q100 = (y - 1901) div 100"
  define q400 where "q400 = (y - 1601) div 400"
  have a: "(y - 1968) div 4 = q4 + A" unfolding A_def q4_def by (rule shift_div_4)
  have b: "(y - 1900) div 100 = q100 + B" unfolding B_def q100_def by (rule shift_div_100)
  have c: "(y - 1600) div 400 = q400 + C" unfolding C_def q400_def by (rule shift_div_400)
  have d: "DayFromYear y = 365 * (y - 1970) + q4 - q100 + q400"
    unfolding q4_def q100_def q400_def by (rule DayFromYear_alt)
  have "DayFromYear (y + 1)
          = 365 * (y - 1969) + (y - 1968) div 4 - (y - 1900) div 100 + (y - 1600) div 400"
    by (simp add: DayFromYear_def)
  also have "\<dots> = DayFromYear y + 365 + (A - B + C)"
    unfolding a b c d by (simp add: algebra_simps)
  also have "A - B + C = InLeapYear y"
    unfolding A_def B_def C_def by (rule leap_count)
  finally show ?thesis .
qed

lemma InLeapYear_range: "InLeapYear y = 0 \<or> InLeapYear y = 1"
  by (simp add: InLeapYear_def)

lemma DayFromYear_bounds:
  "146097 * (y - 1970) - 506 \<le> 400 * DayFromYear y"
  "400 * DayFromYear y \<le> 146097 * (y - 1970) + 589"
proof -
  define q4 where "q4 = (y - 1969) div 4"
  define q100 where "q100 = (y - 1901) div 100"
  define q400 where "q400 = (y - 1601) div 400"
  have d: "DayFromYear y = 365 * (y - 1970) + q4 - q100 + q400"
    unfolding q4_def q100_def q400_def by (rule DayFromYear_alt)
  have u4: "4 * q4 \<le> y - 1969" and l4: "y - 1972 \<le> 4 * q4"
    unfolding q4_def using div_upper [of 4 "y - 1969"] div_lower [of 4 "y - 1969"] by simp_all
  have u100: "100 * q100 \<le> y - 1901" and l100: "y - 2000 \<le> 100 * q100"
    unfolding q100_def using div_upper [of 100 "y - 1901"] div_lower [of 100 "y - 1901"]
    by simp_all
  have u400: "400 * q400 \<le> y - 1601" and l400: "y - 2000 \<le> 400 * q400"
    unfolding q400_def using div_upper [of 400 "y - 1601"] div_lower [of 400 "y - 1601"]
    by simp_all
  show "146097 * (y - 1970) - 506 \<le> 400 * DayFromYear y"
    unfolding d using l4 u100 l400 by (simp add: algebra_simps)
  show "400 * DayFromYear y \<le> 146097 * (y - 1970) + 589"
    unfolding d using u4 l100 u400 by (simp add: algebra_simps)
qed

text \<open>\<^verbatim>\<open>YearFromDay\<close> is the year whose days include the given day, and the only one.\<close>

lemma YearFromDay_bracket:
  "DayFromYear (YearFromDay n) \<le> n \<and> n < DayFromYear (YearFromDay n + 1)"
proof -
  define e where "e = (400 * n) div 146097"
  have eu: "146097 * e \<le> 400 * n" and el: "400 * n - 146096 \<le> 146097 * e"
    unfolding e_def using div_upper [of 146097 "400 * n"] div_lower [of 146097 "400 * n"]
    by simp_all
  have lo: "DayFromYear (1970 + e - 1) \<le> n"
    using DayFromYear_bounds(2) [of "1970 + e - 1"] eu by (simp add: algebra_simps)
  have hi: "n < DayFromYear (1970 + e + 2)"
    using DayFromYear_bounds(1) [of "1970 + e + 2"] el by (simp add: algebra_simps)
  have y: "YearFromDay n =
     (if n < DayFromYear (1970 + e) then 1970 + e - 1
      else if DayFromYear (1970 + e + 1) \<le> n then 1970 + e + 1
      else 1970 + e)"
    by (simp add: YearFromDay_def Let_def e_def)
  show ?thesis
  proof (cases "n < DayFromYear (1970 + e)")
    case True
    then show ?thesis using lo y by simp
  next
    case False
    show ?thesis
    proof (cases "DayFromYear (1970 + e + 1) \<le> n")
      case True
      with False hi y show ?thesis by (simp add: add.assoc)
    next
      case b: False
      with False y show ?thesis by simp
    qed
  qed
qed

lemma DayFromYear_mono: "y \<le> y' \<Longrightarrow> DayFromYear y \<le> DayFromYear y'"
proof (induction y' rule: int_ge_induct)
  case base
  show ?case by simp
next
  case (step i)
  have "DayFromYear i \<le> DayFromYear (i + 1)"
    using DayFromYear_step [of i] InLeapYear_range [of i] by auto
  with step.IH show ?case by simp
qed

lemma YearFromDay_unique:
  assumes lo: "DayFromYear y \<le> n" and hi: "n < DayFromYear (y + 1)"
  shows "YearFromDay n = y"
proof (rule ccontr)
  assume ne: "YearFromDay n \<noteq> y"
  let ?Y = "YearFromDay n"
  have b: "DayFromYear ?Y \<le> n" "n < DayFromYear (?Y + 1)"
    using YearFromDay_bracket [of n] by simp_all
  show False
  proof (cases "?Y < y")
    case True
    then have "DayFromYear (?Y + 1) \<le> DayFromYear y" by (intro DayFromYear_mono) simp
    with b(2) lo show False by simp
  next
    case False
    with ne have "y + 1 \<le> ?Y" by simp
    then have "DayFromYear (y + 1) \<le> DayFromYear ?Y" by (rule DayFromYear_mono)
    with b(1) hi show False by simp
  qed
qed

subsection \<open>Months and days of the month\<close>

lemma month_cases:
  fixes m :: int
  assumes "0 \<le> m" "m \<le> 11"
  shows "m = 0 \<or> m = 1 \<or> m = 2 \<or> m = 3 \<or> m = 4 \<or> m = 5 \<or> m = 6 \<or> m = 7 \<or> m = 8
         \<or> m = 9 \<or> m = 10 \<or> m = 11"
  using assms by arith

lemma MonthStart_day_range:
  assumes "0 \<le> m" "m \<le> 11" "1 \<le> d" "d \<le> DaysInMonth m l" "l = 0 \<or> l = 1"
  shows "0 \<le> MonthStart m l + d - 1" "MonthStart m l + d - 1 < 365 + l"
  using month_cases [OF assms(1,2)] assms(3-5)
  by (elim disjE; simp add: MonthStart_def DaysInMonth_def)+

lemma Month_of_MonthStart:
  assumes "0 \<le> m" "m \<le> 11" "1 \<le> d" "d \<le> DaysInMonth m l" "l = 0 \<or> l = 1"
  shows "MonthFromDayInYear (MonthStart m l + d - 1) l = m"
  using month_cases [OF assms(1,2)] assms(3-5)
  by (elim disjE; simp add: MonthStart_def DaysInMonth_def MonthFromDayInYear_def)

lemma MakeDay_in_range:
  assumes "0 \<le> m" "m \<le> 11"
  shows "MakeDay y m d = DayFromYear y + MonthStart m (InLeapYear y) + d - 1"
proof -
  have "m div 12 = 0" "m mod 12 = m" using assms by simp_all
  then show ?thesis by (simp add: MakeDay_def Let_def)
qed

text \<open>The day number of a calendar date has that date's fields, and the fields of a day
  number are a calendar date with that day number.\<close>

lemma fields_of_MakeDay:
  assumes m: "0 \<le> m" "m \<le> 11" and d: "1 \<le> d" "d \<le> DaysInMonth m (InLeapYear y)"
  shows "YearFromDay (MakeDay y m d) = y"
    and "MonthFromDayInYear (MakeDay y m d - DayFromYear y) (InLeapYear y) = m"
    and "MakeDay y m d - DayFromYear y - MonthStart m (InLeapYear y) + 1 = d"
proof -
  let ?l = "InLeapYear y"
  have r: "0 \<le> MonthStart m ?l + d - 1" "MonthStart m ?l + d - 1 < 365 + ?l"
    using MonthStart_day_range [OF m d InLeapYear_range] by simp_all
  have md: "MakeDay y m d = DayFromYear y + (MonthStart m ?l + d - 1)"
    using MakeDay_in_range [OF m] by simp
  show "YearFromDay (MakeDay y m d) = y"
    using r by (intro YearFromDay_unique) (simp_all add: md DayFromYear_step)
  show "MonthFromDayInYear (MakeDay y m d - DayFromYear y) ?l = m"
    using Month_of_MonthStart [OF m d InLeapYear_range] by (simp add: md)
  show "MakeDay y m d - DayFromYear y - MonthStart m ?l + 1 = d"
    by (simp add: md)
qed

lemma day_in_year_cases:
  fixes w l :: int
  assumes "0 \<le> w" "w < 365 + l"
  shows "w < 31 \<or> (31 \<le> w \<and> w < 59 + l) \<or> (59 + l \<le> w \<and> w < 90 + l)
       \<or> (90 + l \<le> w \<and> w < 120 + l) \<or> (120 + l \<le> w \<and> w < 151 + l)
       \<or> (151 + l \<le> w \<and> w < 181 + l) \<or> (181 + l \<le> w \<and> w < 212 + l)
       \<or> (212 + l \<le> w \<and> w < 243 + l) \<or> (243 + l \<le> w \<and> w < 273 + l)
       \<or> (273 + l \<le> w \<and> w < 304 + l) \<or> (304 + l \<le> w \<and> w < 334 + l)
       \<or> (334 + l \<le> w \<and> w < 365 + l)"
  using assms by linarith

lemma month_of_day_bracket:
  fixes w l :: int
  assumes w: "0 \<le> w" "w < 365 + l" and l: "l = 0 \<or> l = 1"
  shows "0 \<le> MonthFromDayInYear w l \<and> MonthFromDayInYear w l \<le> 11
       \<and> MonthStart (MonthFromDayInYear w l) l \<le> w
       \<and> w - MonthStart (MonthFromDayInYear w l) l < DaysInMonth (MonthFromDayInYear w l) l"
  using day_in_year_cases [OF w] w(1) l
  by (elim disjE conjE; simp add: MonthFromDayInYear_def MonthStart_def DaysInMonth_def)

lemma MakeDay_of_fields:
  fixes n :: int
  defines "y \<equiv> YearFromDay n"
  defines "m \<equiv> MonthFromDayInYear (n - DayFromYear y) (InLeapYear y)"
  defines "d \<equiv> n - DayFromYear y - MonthStart m (InLeapYear y) + 1"
  shows "0 \<le> m" "m \<le> 11" "1 \<le> d" "d \<le> DaysInMonth m (InLeapYear y)"
    and "MakeDay y m d = n"
proof -
  let ?l = "InLeapYear y"
  let ?w = "n - DayFromYear y"
  have w: "0 \<le> ?w" "?w < 365 + ?l"
    using YearFromDay_bracket [of n] by (simp_all add: y_def DayFromYear_step)
  note b = month_of_day_bracket [OF w InLeapYear_range, folded m_def]
  show m0: "0 \<le> m" and m11: "m \<le> 11" using b by simp_all
  show "1 \<le> d" "d \<le> DaysInMonth m ?l"
    using b unfolding d_def by simp_all
  show "MakeDay y m d = n"
    using MakeDay_in_range [OF m0 m11] by (simp add: d_def)
qed

text \<open>The day number orders calendar dates as the calendar does.\<close>

lemma MonthStart_succ:
  assumes "0 \<le> m" "m \<le> 10"
  shows "MonthStart (m + 1) l = MonthStart m l + DaysInMonth m l"
proof -
  have "m = 0 \<or> m = 1 \<or> m = 2 \<or> m = 3 \<or> m = 4 \<or> m = 5 \<or> m = 6 \<or> m = 7 \<or> m = 8
         \<or> m = 9 \<or> m = 10"
    using assms by arith
  then show ?thesis
    by (elim disjE; simp add: MonthStart_def DaysInMonth_def)
qed

lemma DaysInMonth_pos: "0 \<le> l \<Longrightarrow> 28 \<le> DaysInMonth m l"
  by (simp add: DaysInMonth_def)

lemma MonthStart_mono:
  assumes "0 \<le> m" "m \<le> m'" "m' \<le> 11" "0 \<le> l"
  shows "MonthStart m l \<le> MonthStart m' l"
  using assms(2,1,3)
proof (induction m' rule: int_ge_induct)
  case base
  show ?case by simp
next
  case (step i)
  have "MonthStart (i + 1) l = MonthStart i l + DaysInMonth i l"
    using step.hyps step.prems by (intro MonthStart_succ) simp_all
  moreover have "MonthStart m l \<le> MonthStart i l"
    using step by simp
  ultimately show ?case using DaysInMonth_pos [OF assms(4), of i] by simp
qed

lemma MakeDay_strict_mono:
  assumes a: "0 \<le> m" "m \<le> 11" "1 \<le> d" "d \<le> DaysInMonth m (InLeapYear y)"
    and b: "0 \<le> m'" "m' \<le> 11" "1 \<le> d'" "d' \<le> DaysInMonth m' (InLeapYear y')"
    and lt: "calendar_date_before (y, m, d) (y', m', d')"
  shows "MakeDay y m d < MakeDay y' m' d'"
proof -
  let ?l = "InLeapYear y" and ?l' = "InLeapYear y'"
  have ra: "0 \<le> MonthStart m ?l + d - 1" "MonthStart m ?l + d - 1 < 365 + ?l"
    using MonthStart_day_range [OF a InLeapYear_range] by simp_all
  have rb: "0 \<le> MonthStart m' ?l' + d' - 1"
    using MonthStart_day_range [OF b InLeapYear_range] by simp_all
  have ea: "MakeDay y m d = DayFromYear y + (MonthStart m ?l + d - 1)"
    using MakeDay_in_range [OF a(1,2)] by simp
  have eb: "MakeDay y' m' d' = DayFromYear y' + (MonthStart m' ?l' + d' - 1)"
    using MakeDay_in_range [OF b(1,2)] by simp
  from lt consider (year) "y < y'" | (month) "y = y'" "m < m'" | (day) "y = y'" "m = m'" "d < d'"
    by (auto simp: calendar_date_before_def)
  then show ?thesis
  proof cases
    case year
    then have "DayFromYear (y + 1) \<le> DayFromYear y'" by (intro DayFromYear_mono) simp
    then show ?thesis unfolding ea eb using ra rb by (simp add: DayFromYear_step)
  next
    case month
    have l0: "0 \<le> ?l" using InLeapYear_range [of y] by auto
    have "MonthStart (m + 1) ?l = MonthStart m ?l + DaysInMonth m ?l"
      using a(1) month(2) b(2) by (intro MonthStart_succ) simp_all
    moreover have "MonthStart (m + 1) ?l \<le> MonthStart m' ?l"
      using a(1) month(2) b(2) l0 by (intro MonthStart_mono) simp_all
    ultimately have "MonthStart m ?l + d - 1 < MonthStart m' ?l + d' - 1"
      using a(4) b(3) by simp
    then show ?thesis unfolding ea eb using month(1) by simp
  next
    case day
    then show ?thesis unfolding ea eb by simp
  qed
qed

lemma calendar_date_trichotomy:
  "calendar_date_before a b \<or> a = b \<or> calendar_date_before b a"
proof (cases a; cases b)
  fix y m d y' m' d' :: int
  assume "a = (y, m, d)" "b = (y', m', d')"
  then show ?thesis
    unfolding calendar_date_before_def by simp linarith
qed

lemma MakeDay_less_iff:
  assumes a: "0 \<le> m" "m \<le> 11" "1 \<le> d" "d \<le> DaysInMonth m (InLeapYear y)"
    and b: "0 \<le> m'" "m' \<le> 11" "1 \<le> d'" "d' \<le> DaysInMonth m' (InLeapYear y')"
  shows "(MakeDay y m d < MakeDay y' m' d') = calendar_date_before (y, m, d) (y', m', d')"
proof
  assume "calendar_date_before (y, m, d) (y', m', d')"
  then show "MakeDay y m d < MakeDay y' m' d'" by (rule MakeDay_strict_mono [OF a b])
next
  assume lt: "MakeDay y m d < MakeDay y' m' d'"
  show "calendar_date_before (y, m, d) (y', m', d')"
  proof (rule ccontr)
    assume n: "\<not> calendar_date_before (y, m, d) (y', m', d')"
    then consider "(y, m, d) = (y', m', d')" | "calendar_date_before (y', m', d') (y, m, d)"
      using calendar_date_trichotomy [of "(y, m, d)" "(y', m', d')"] by blast
    then show False
    proof cases
      case 1
      then show False using lt by simp
    next
      case 2
      then have "MakeDay y' m' d' < MakeDay y m d" by (rule MakeDay_strict_mono [OF b a])
      with lt show False by simp
    qed
  qed
qed

subsection \<open>Time values\<close>

lemma Day_plus:
  assumes "0 \<le> r" "r < msPerDay"
  shows "Day (n * msPerDay + r) = n" and "TimeWithinDay (n * msPerDay + r) = r"
proof -
  have e: "n * msPerDay + r = msPerDay * n + r" by simp
  show "Day (n * msPerDay + r) = n"
    unfolding Day_def by (rule int_div_pos_eq [OF e assms])
  show "TimeWithinDay (n * msPerDay + r) = r"
    unfolding TimeWithinDay_def by (rule int_mod_pos_eq [OF e assms])
qed

lemma Day_exact: "Day (n * msPerDay) = n"
  using Day_plus(1) [of 0 n] by (simp add: msPerDay_def)

lemma Day_split: "t = Day t * msPerDay + TimeWithinDay t"
  unfolding Day_def TimeWithinDay_def by simp

lemma TimeWithinDay_range: "0 \<le> TimeWithinDay t" "TimeWithinDay t < msPerDay"
  unfolding TimeWithinDay_def msPerDay_def by simp_all

lemma fields_of_local_day:
  assumes m: "0 \<le> m" "m \<le> 11" and d: "1 \<le> d" "d \<le> DaysInMonth m (InLeapYear y)"
    and r: "0 \<le> r" "r < msPerDay"
  shows "YearFromTime (MakeDay y m d * msPerDay + r) = y"
    and "MonthFromTime (MakeDay y m d * msPerDay + r) = m"
    and "DateFromTime (MakeDay y m d * msPerDay + r) = d"
proof -
  let ?t = "MakeDay y m d * msPerDay + r"
  have day: "Day ?t = MakeDay y m d" using Day_plus(1) [OF r] .
  show yr: "YearFromTime ?t = y"
    by (simp add: YearFromTime_def day fields_of_MakeDay(1) [OF m d])
  show mo: "MonthFromTime ?t = m"
    by (simp add: MonthFromTime_def DayWithinYear_def yr day fields_of_MakeDay(2) [OF m d])
  show "DateFromTime ?t = d"
    using fields_of_MakeDay(3) [OF m d]
    by (simp add: DateFromTime_def DayWithinYear_def yr mo day)
qed

lemma day_of_fields: "MakeDay (YearFromTime t) (MonthFromTime t) (DateFromTime t) = Day t"
  using MakeDay_of_fields(5) [of "Day t"]
  by (simp add: YearFromTime_def MonthFromTime_def DateFromTime_def DayWithinYear_def)

lemma fields_valid:
  "0 \<le> MonthFromTime t" "MonthFromTime t \<le> 11" "1 \<le> DateFromTime t"
  "DateFromTime t \<le> DaysInMonth (MonthFromTime t) (InLeapYear (YearFromTime t))"
  using MakeDay_of_fields(1-4) [of "Day t"]
  by (simp_all add: YearFromTime_def MonthFromTime_def DateFromTime_def DayWithinYear_def)

lemma DayFromYear_100: "DayFromYear 100 = - 683003"
  by (simp add: DayFromYear_def)

lemma DayFromYear_10000: "DayFromYear 10000 = 2932897"
  by (simp add: DayFromYear_def)

lemma DayFromYear_1969: "DayFromYear 1969 = - 365"
  by (simp add: DayFromYear_def)

lemma MakeDay_bounds:
  assumes m: "0 \<le> m" "m \<le> 11" and d: "1 \<le> d" "d \<le> DaysInMonth m (InLeapYear y)"
    and y: "100 \<le> y" "y \<le> 9999"
  shows "- 683003 \<le> MakeDay y m d" "MakeDay y m d < 2932897"
proof -
  have r: "0 \<le> MonthStart m (InLeapYear y) + d - 1"
       "MonthStart m (InLeapYear y) + d - 1 < 365 + InLeapYear y"
    using MonthStart_day_range [OF m d InLeapYear_range] by simp_all
  have e: "MakeDay y m d = DayFromYear y + (MonthStart m (InLeapYear y) + d - 1)"
    using MakeDay_in_range [OF m] by simp
  have "DayFromYear 100 \<le> DayFromYear y" using y(1) by (rule DayFromYear_mono)
  then show "- 683003 \<le> MakeDay y m d" using r(1) by (simp add: e DayFromYear_100)
  have "DayFromYear (y + 1) \<le> DayFromYear 10000" using y(2) by (intro DayFromYear_mono) simp
  then show "MakeDay y m d < 2932897"
    using r(2) by (simp add: e DayFromYear_10000 DayFromYear_step)
qed

lemma local_year_recent:
  assumes "0 \<le> now_ms c" "abs (tza c) \<le> 86400000"
  shows "1969 \<le> YearFromTime (LocalTime c (now_ms c))"
proof (rule ccontr)
  let ?l = "LocalTime c (now_ms c)"
  let ?Y = "YearFromTime ?l"
  assume "\<not> 1969 \<le> ?Y"
  then have "?Y + 1 \<le> 1969" by simp
  then have "DayFromYear (?Y + 1) \<le> - 365"
    using DayFromYear_mono [of "?Y + 1" 1969] by (simp add: DayFromYear_1969)
  moreover have "Day ?l < DayFromYear (?Y + 1)"
    using YearFromDay_bracket [of "Day ?l"] by (simp add: YearFromTime_def)
  ultimately have "Day ?l < - 365" by simp
  then have "Day ?l * msPerDay \<le> - 366 * msPerDay" by (simp add: msPerDay_def)
  moreover have "?l < Day ?l * msPerDay + msPerDay"
    using Day_split [of ?l] TimeWithinDay_range(2) [of ?l] by linarith
  ultimately have "?l < - 365 * msPerDay" by (simp add: msPerDay_def)
  then show False using assms by (simp add: LocalTime_def msPerDay_def)
qed

lemma TimeClip_ok: "abs t \<le> 8640000000000000 \<Longrightarrow> TimeClip t = Some t"
  by (simp add: TimeClip_def)

lemma new_Date_nums:
  "new_Date c (Num y) (Num m) (Num d) (Num h) (Num mi) =
     TimeClip (MakeDay (if 0 \<le> y \<and> y \<le> 99 then 1900 + y else y) m d * msPerDay
               + MakeTime h mi 0 0 - tza c)"
  by (simp add: new_Date_def UTC_def MakeDate_def Let_def)

subsection \<open>Reading well-formed dates and times\<close>

lemma digit_val_cases:
  assumes "digit_val c = Some v"
  shows "0 \<le> v \<and> v \<le> 9 \<and> \<not> is_space c \<and> c \<noteq> CHR ''-'' \<and> c \<noteq> CHR ''+''"
  using assms by (auto simp: digit_val_def is_space_def split: if_splits)

lemma digits_value_chars:
  "digits_value s acc = Some v \<Longrightarrow> c \<in> set s \<Longrightarrow> digit_val c \<noteq> None"
  by (induction s arbitrary: acc) (auto split: option.splits)

lemma trim_digits:
  assumes "digits_value s acc = Some v"
  shows "trim s = s"
proof (cases s)
  case Nil
  then show ?thesis by (simp add: trim_def)
next
  case (Cons a as)
  have ns: "\<not> is_space c" if "c \<in> set s" for c
    using digits_value_chars [OF assms that] digit_val_cases [of c] by auto
  have 1: "dropWhile is_space s = s"
    using ns Cons by simp
  have "rev s \<noteq> []" using Cons by simp
  then obtain b bs where r: "rev s = b # bs" by (cases "rev s") auto
  then have "b \<in> set s" by (metis list.set_intros(1) set_rev)
  then have "\<not> is_space b" by (rule ns)
  then have 2: "dropWhile is_space (rev s) = rev s" using r by simp
  show ?thesis by (simp add: trim_def 1 2)
qed

lemma digit_no_prefix:
  assumes "digit_val c = Some v"
  shows "radix_of c = None" "c \<noteq> CHR ''I''" "c \<noteq> CHR ''.''" "is_digit c"
  using assms by (auto simp: digit_val_def radix_of_def is_digit_def split: if_splits)

lemma unsigned_decimal_digits:
  assumes "digits_value s 0 = Some v" "s \<noteq> []"
  shows "unsigned_decimal s = Num v"
proof -
  have d: "is_digit c" if "c \<in> set s" for c
    using digits_value_chars [OF assms(1) that] digit_no_prefix(4) [of c] by auto
  have t: "takeWhile is_digit s = s" "dropWhile is_digit s = []"
    using d by simp_all
  have "CHR ''I'' \<notin> set s"
    using digits_value_chars [OF assms(1), of "CHR ''I''"] digit_no_prefix(2) [of "CHR ''I''"]
    by auto
  then have i: "s \<noteq> ''Infinity''" by auto
  show ?thesis
    using assms i by (simp add: unsigned_decimal_def t exponent_part_def decimal_number_def)
qed

lemma Number_js_digits:
  assumes "digits_value s 0 = Some v" "s \<noteq> []"
  shows "Number_js s = Num v"
proof -
  obtain a as where s: "s = a # as" using assms(2) by (cases s) auto
  have "digit_val a \<noteq> None" using digits_value_chars [OF assms(1), of a] s by simp
  then have na: "a \<noteq> CHR ''-''" "a \<noteq> CHR ''+''" using digit_val_cases [of a] by auto
  have t: "trim (a # as) = a # as" using trim_digits [OF assms(1)] s by simp
  have nd: "non_decimal_literal (a # as) = None"
  proof (cases as)
    case Nil
    then show ?thesis by (simp add: non_decimal_literal_def)
  next
    case (Cons b bs)
    then have "digit_val b \<noteq> None" using digits_value_chars [OF assms(1), of b] s by simp
    then have "radix_of b = None" using digit_no_prefix(1) [of b] by auto
    then show ?thesis using Cons by (simp add: non_decimal_literal_def)
  qed
  have "unsigned_decimal (a # as) = Num v"
    using unsigned_decimal_digits [OF assms] s by simp
  then show ?thesis
    unfolding s Number_js_def t using na nd by simp
qed

lemma fixed_digits_Number:
  assumes "fixed_digits n s = Some v" "0 < n"
  shows "Number_js s = Num v"
proof -
  have "length s = n" "digits_value s 0 = Some v"
    using assms(1) by (auto simp: fixed_digits_def split: if_splits)
  moreover have "s \<noteq> []" using \<open>length s = n\<close> assms(2) by auto
  ultimately show ?thesis by (simp add: Number_js_digits)
qed

lemma digits_value_bound:
  "digits_value s acc = Some v \<Longrightarrow> 0 \<le> acc \<Longrightarrow>
     acc * 10 ^ length s \<le> v \<and> v < (acc + 1) * 10 ^ length s"
proof (induction s arbitrary: acc)
  case Nil
  then show ?case by simp
next
  case (Cons c cs)
  from Cons.prems obtain d where d: "digit_val c = Some d"
    and rec: "digits_value cs (10 * acc + d) = Some v"
    by (auto split: option.splits)
  have dr: "0 \<le> d" "d \<le> 9" using digit_val_cases [OF d] by simp_all
  have ih: "(10 * acc + d) * 10 ^ length cs \<le> v \<and> v < (10 * acc + d + 1) * 10 ^ length cs"
    using Cons.IH [OF rec] Cons.prems(2) dr by simp
  have p: "(0::int) < 10 ^ length cs" by simp
  have a: "acc * 10 ^ length (c # cs) \<le> (10 * acc + d) * 10 ^ length cs"
    using dr p by (simp add: algebra_simps)
  have "(10 * acc + d + 1) \<le> (acc + 1) * 10" using dr by simp
  then have "(10 * acc + d + 1) * 10 ^ length cs \<le> ((acc + 1) * 10) * 10 ^ length cs"
    using p by (intro mult_right_mono) simp_all
  then have b: "(10 * acc + d + 1) * 10 ^ length cs \<le> (acc + 1) * 10 ^ length (c # cs)"
    by (simp add: algebra_simps)
  show ?case using ih a b by linarith
qed

lemma fixed_digits_range:
  assumes "fixed_digits n s = Some v"
  shows "0 \<le> v \<and> v < 10 ^ n"
proof -
  have "length s = n" "digits_value s 0 = Some v"
    using assms(1) by (auto simp: fixed_digits_def split: if_splits)
  then show ?thesis using digits_value_bound [of s 0 v] by simp
qed

lemma parse_iso_date_parts:
  assumes "parse_iso_date s = Some (y, m, d)"
  shows "\<exists>ys ms ds. split_on CHR ''-'' s = [ys, ms, ds] \<and> fixed_digits 4 ys = Some y
           \<and> fixed_digits 2 ms = Some m \<and> fixed_digits 2 ds = Some d
           \<and> 1 \<le> m \<and> m \<le> 12 \<and> 1 \<le> d \<and> d \<le> 31"
  using assms unfolding parse_iso_date_def
  by (auto split: list.splits option.splits if_splits)

lemma parse_iso_date_nonempty: "parse_iso_date s = Some v \<Longrightarrow> s \<noteq> []"
  by (auto simp: parse_iso_date_def)

lemma parse_iso_date_year_range:
  assumes "parse_iso_date s = Some (y, m, d)"
  shows "0 \<le> y" "y \<le> 9999"
proof -
  obtain ys where "fixed_digits 4 ys = Some y"
    using parse_iso_date_parts [OF assms] by blast
  then have "0 \<le> y \<and> y < 10 ^ 4" by (rule fixed_digits_range)
  then show "0 \<le> y" "y \<le> 9999" by simp_all
qed

lemma local_date_of_wf:
  assumes p: "parse_iso_date s = Some (y, m, d)" and y: "100 \<le> y"
  shows "local_date_of c s (Num h) (Num mi) =
           TimeClip (MakeDay y (m - 1) d * msPerDay + MakeTime h mi 0 0 - tza c)"
proof -
  obtain ys ms ds where sp: "split_on CHR ''-'' s = [ys, ms, ds]"
    and f: "fixed_digits 4 ys = Some y" "fixed_digits 2 ms = Some m" "fixed_digits 2 ds = Some d"
    and r: "1 \<le> m" "1 \<le> d"
    using parse_iso_date_parts [OF p] by blast
  have n: "Number_js ys = Num y" "Number_js ms = Num m" "Number_js ds = Num d"
    using f by (simp_all add: fixed_digits_Number)
  have "local_date_of c s (Num h) (Num mi) = new_Date c (Num y) (Num (m - 1)) (Num d) (Num h) (Num mi)"
    using r by (simp add: local_date_of_def sp n at_index_def Let_def)
  then show ?thesis using y by (simp add: new_Date_nums)
qed

lemma js_or_Num_0: "js_or (Num n) 0 = Num n"
  by simp

lemma parse_iso_time_parts:
  assumes "parse_iso_time ts = Some (h, mi, sec)"
  shows "ts \<noteq> []"
    and "at_index (map Number_js (split_on CHR '':'' ts)) 0 = Num h"
    and "at_index (map Number_js (split_on CHR '':'' ts)) 1 = Num mi"
    and "0 \<le> h" "h \<le> 23" "0 \<le> mi" "mi \<le> 59" "0 \<le> sec" "sec \<le> 59"
proof -
  let ?parts = "split_on CHR '':'' ts"
  show "ts \<noteq> []" using assms by (auto simp: parse_iso_time_def Let_def)
  define fields where "fields = (if length ?parts = 2 then ?parts @ [''00''] else ?parts)"
  have len: "length fields = 3"
    and th: "those (map (fixed_digits 2) fields) = Some [h, mi, sec]"
    and r: "h \<le> 23" "mi \<le> 59" "sec \<le> 59"
    using assms unfolding parse_iso_time_def Let_def fields_def [symmetric]
    by (auto split: if_splits option.splits list.splits)
  obtain hs ms ss where fl: "fields = [hs, ms, ss]"
    using len by (auto simp: length_Suc_conv numeral_3_eq_3)
  have f: "fixed_digits 2 hs = Some h" "fixed_digits 2 ms = Some mi" "fixed_digits 2 ss = Some sec"
    using th unfolding fl by (auto split: option.splits)
  have "\<exists>rest. ?parts = hs # ms # rest"
  proof (cases "length ?parts = 2")
    case True
    then have "?parts @ [''00''] = [hs, ms, ss]" using fl by (simp add: fields_def)
    then have "?parts = [hs, ms]" by (metis append_butlast_last_id butlast.simps(2) butlast_snoc list.distinct(1))
    then show ?thesis by simp
  next
    case False
    then show ?thesis using fl by (simp add: fields_def)
  qed
  then obtain rest where sp: "?parts = hs # ms # rest" by blast
  show "at_index (map Number_js ?parts) 0 = Num h" "at_index (map Number_js ?parts) 1 = Num mi"
    using f by (simp_all add: sp at_index_def fixed_digits_Number)
  show "0 \<le> h" "0 \<le> mi" "0 \<le> sec"
    using f fixed_digits_range by blast+
  show "h \<le> 23" "mi \<le> 59" "sec \<le> 59" using r by simp_all
qed

subsection \<open>isToday and isPastAppointment on well-formed dates\<close>

lemma appointment_instant:
  assumes p: "parse_iso_date s = Some (y, m, d)" and y: "100 \<le> y"
    and v: "valid_date y m d"
    and c: "abs (tza c) \<le> 86400000"
    and r: "0 \<le> MakeTime h mi 0 0" "MakeTime h mi 0 0 < msPerDay"
  shows "local_date_of c s (Num h) (Num mi) =
           Some (MakeDay y (m - 1) d * msPerDay + MakeTime h mi 0 0 - tza c)"
proof -
  have m: "0 \<le> m - 1" "m - 1 \<le> 11" and d: "1 \<le> d" "d \<le> DaysInMonth (m - 1) (InLeapYear y)"
    using v by (simp_all add: valid_date_def)
  have b: "- 683003 \<le> MakeDay y (m - 1) d" "MakeDay y (m - 1) d < 2932897"
    using MakeDay_bounds [OF m d y parse_iso_date_year_range(2) [OF p]] by simp_all
  have "abs (MakeDay y (m - 1) d * msPerDay + MakeTime h mi 0 0 - tza c) \<le> 8640000000000000"
    using b c r by (simp add: msPerDay_def abs_le_iff)
  then show ?thesis
    by (simp add: local_date_of_wf [OF p y] TimeClip_ok)
qed

lemma isToday_reads_calendar:
  assumes p: "parse_iso_date s = Some (y, m, d)" and y: "100 \<le> y"
    and v: "valid_date y m d"
    and c: "abs (tza c) \<le> 86400000"
  shows "isToday c s = ((y, m, d) = today_of c)"
proof -
  let ?n = "MakeDay y (m - 1) d"
  have m: "0 \<le> m - 1" "m - 1 \<le> 11" and d: "1 \<le> d" "d \<le> DaysInMonth (m - 1) (InLeapYear y)"
    using v by (simp_all add: valid_date_def)
  have a: "local_date_of c s (Num 0) (Num 0) = Some (?n * msPerDay - tza c)"
    using appointment_instant [OF p y v c, of 0 0] by (simp add: MakeTime_def msPerDay_def)
  have f: "YearFromTime (?n * msPerDay) = y" "MonthFromTime (?n * msPerDay) = m - 1"
    "DateFromTime (?n * msPerDay) = d"
    using fields_of_local_day [OF m d, of 0] by (simp_all add: msPerDay_def)
  have "isToday c s = same_local_day c (Some (?n * msPerDay - tza c)) (Some (now_ms c))"
    using parse_iso_date_nonempty [OF p] by (simp add: isToday_def a Let_def)
  also have "\<dots> = ((y, m, d) = today_of c)"
    by (auto simp: same_local_day_def getFullYear_def getMonth_def getDate_def LocalTime_def f
        today_of_def Let_def)
  finally show ?thesis .
qed

lemma midnight_today:
  assumes c: "clock_in_range c"
  shows "new_Date c (getFullYear c (Some (now_ms c))) (getMonth c (Some (now_ms c)))
           (getDate c (Some (now_ms c))) (Num 0) (Num 0)
         = Some (Day (LocalTime c (now_ms c)) * msPerDay - tza c)"
proof -
  let ?l = "LocalTime c (now_ms c)"
  have c': "0 \<le> now_ms c" "now_ms c \<le> 8640000000000000" "abs (tza c) \<le> 86400000"
    using c by (simp_all add: clock_in_range_def)
  have yr: "1969 \<le> YearFromTime ?l" using local_year_recent [OF c'(1,3)] .
  have "Day ?l * msPerDay \<le> ?l" "?l < Day ?l * msPerDay + msPerDay"
    using Day_split [of ?l] TimeWithinDay_range [of ?l] by linarith+
  then have "abs (Day ?l * msPerDay - tza c) \<le> 8640000000000000"
    using c' by (simp add: LocalTime_def msPerDay_def abs_le_iff)
  then show ?thesis
    using yr
    by (simp add: getFullYear_def getMonth_def getDate_def new_Date_nums MakeTime_def
        day_of_fields TimeClip_ok)
qed

lemma before_midnight_iff:
  assumes p: "parse_iso_date s = Some (y, m, d)" and y: "100 \<le> y"
    and v: "valid_date y m d"
  shows "(MakeDay y (m - 1) d < Day (LocalTime c (now_ms c)))
           = calendar_date_before (y, m, d) (today_of c)"
proof -
  let ?l = "LocalTime c (now_ms c)"
  have m: "0 \<le> m - 1" "m - 1 \<le> 11" and d: "1 \<le> d" "d \<le> DaysInMonth (m - 1) (InLeapYear y)"
    using v by (simp_all add: valid_date_def)
  have "(MakeDay y (m - 1) d < MakeDay (YearFromTime ?l) (MonthFromTime ?l) (DateFromTime ?l))
          = calendar_date_before (y, m - 1, d) (YearFromTime ?l, MonthFromTime ?l, DateFromTime ?l)"
    by (rule MakeDay_less_iff [OF m d fields_valid])
  also have "\<dots> = calendar_date_before (y, m, d)
                       (YearFromTime ?l, MonthFromTime ?l + 1, DateFromTime ?l)"
    by (auto simp: calendar_date_before_def)
  finally show ?thesis
    by (simp add: day_of_fields today_of_def Let_def)
qed

lemma today_day_number:
  assumes p: "parse_iso_date s = Some (y, m, d)" and v: "valid_date y m d"
    and t: "(y, m, d) = today_of c"
  shows "MakeDay y (m - 1) d = Day (LocalTime c (now_ms c))"
proof -
  let ?l = "LocalTime c (now_ms c)"
  have "y = YearFromTime ?l" "m - 1 = MonthFromTime ?l" "d = DateFromTime ?l"
    using t by (simp_all add: today_of_def Let_def)
  then show ?thesis using day_of_fields [of ?l] by simp
qed

lemma isPast_first_branch:
  assumes c: "clock_in_range c"
    and p: "parse_iso_date s = Some (y, m, d)" and y: "100 \<le> y" and v: "valid_date y m d"
  shows "date_lt (local_date_of c s (Num 0) (Num 0))
           (new_Date c (getFullYear c (Some (now_ms c))) (getMonth c (Some (now_ms c)))
              (getDate c (Some (now_ms c))) (Num 0) (Num 0))
         = calendar_date_before (y, m, d) (today_of c)"
proof -
  have tz: "abs (tza c) \<le> 86400000" using c by (simp add: clock_in_range_def)
  have a: "local_date_of c s (Num 0) (Num 0) = Some (MakeDay y (m - 1) d * msPerDay - tza c)"
    using appointment_instant [OF p y v tz, of 0 0] by (simp add: MakeTime_def msPerDay_def)
  have "(MakeDay y (m - 1) d * msPerDay - tza c
           < Day (LocalTime c (now_ms c)) * msPerDay - tza c)
        = (MakeDay y (m - 1) d < Day (LocalTime c (now_ms c)))"
    by (simp add: msPerDay_def)
  then show ?thesis
    by (simp add: a midnight_today [OF c] date_lt_def before_midnight_iff [OF p y v])
qed

lemma isPast_second_branch:
  assumes c: "clock_in_range c"
    and p: "parse_iso_date s = Some (y, m, d)" and y: "100 \<le> y" and v: "valid_date y m d"
    and t: "(y, m, d) = today_of c"
    and h: "0 \<le> h" "h \<le> 23" "0 \<le> mi" "mi \<le> 59"
  shows "date_lt (local_date_of c s (Num h) (Num mi)) (Some (now_ms c))
         = time_of_day_before_now c (h, mi, 0)"
proof -
  let ?l = "LocalTime c (now_ms c)"
  have tz: "abs (tza c) \<le> 86400000" using c by (simp add: clock_in_range_def)
  have r: "0 \<le> MakeTime h mi 0 0" "MakeTime h mi 0 0 < msPerDay"
    using h by (simp_all add: MakeTime_def msPerDay_def)
  have a: "local_date_of c s (Num h) (Num mi)
             = Some (Day ?l * msPerDay + MakeTime h mi 0 0 - tza c)"
    using appointment_instant [OF p y v tz r] today_day_number [OF p v t] by simp
  define A where "A = Day ?l * msPerDay"
  define w where "w = TimeWithinDay ?l"
  have "?l = A + w" unfolding A_def w_def by (rule Day_split)
  then have n: "now_ms c = A + w - tza c" by (simp add: LocalTime_def)
  have "(A + MakeTime h mi 0 0 - tza c < now_ms c) = (MakeTime h mi 0 0 < w)"
    unfolding n by auto
  then show ?thesis
    by (simp add: a date_lt_def time_of_day_before_now_def A_def w_def)
qed

text \<open>
  C6, as the code has it. For a clock in range and a date string \<^verbatim>\<open>YYYY-MM-DD\<close> that
  names a calendar date of the year 100 or later: without a time, \<^verbatim>\<open>isPastAppointment\<close>
  is the specification's \<^verbatim>\<open>isPast\<close>; with a time \<^verbatim>\<open>HH:MM\<close> or \<^verbatim>\<open>HH:MM:SS\<close> it is
  the specification's \<^verbatim>\<open>isPast\<close> of the date with the hours and minutes of the time, the
  seconds taken as zero; and a date before today is past whatever the time string.
\<close>

theorem isPast_by_calendar:
  assumes c: "clock_in_range c"
    and p: "parse_iso_date dateString = Some (y, m, d)" and y: "100 \<le> y"
    and v: "valid_date y m d"
  shows "isPastAppointment c dateString None = isPast_words c (y, m, d) None
       \<and> (\<forall>ts h mi sec. parse_iso_time ts = Some (h, mi, sec) \<longrightarrow>
            isPastAppointment c dateString (Some ts)
              = isPast_words c (y, m, d) (Some (h, mi, 0)))
       \<and> (calendar_date_before (y, m, d) (today_of c) \<longrightarrow>
            (\<forall>timeString. isPastAppointment c dateString timeString))"
proof -
  have ne: "dateString \<noteq> []" using parse_iso_date_nonempty [OF p] .
  have tz: "abs (tza c) \<le> 86400000" using c by (simp add: clock_in_range_def)
  note first = isPast_first_branch [OF c p y v]
  note today = isToday_reads_calendar [OF p y v tz]
  have 1: "isPastAppointment c dateString None = isPast_words c (y, m, d) None"
    by (simp add: isPastAppointment_def ne Let_def first isPast_words_def)
  have 2: "isPastAppointment c dateString (Some ts) = isPast_words c (y, m, d) (Some (h, mi, 0))"
    if t: "parse_iso_time ts = Some (h, mi, sec)" for ts h mi sec
  proof -
    note tp = parse_iso_time_parts [OF t]
    show ?thesis
    proof (cases "(y, m, d) = today_of c")
      case True
      note second = isPast_second_branch [OF c p y v True tp(4,5,6,7)]
      show ?thesis
        using True tp(1)
        by (simp add: isPastAppointment_def ne Let_def first today tp(2,3) second
            isPast_words_def js_or_Num_0 del: One_nat_def js_or.simps)
    next
      case False
      then show ?thesis
        by (simp add: isPastAppointment_def ne Let_def first today isPast_words_def)
    qed
  qed
  have 3: "isPastAppointment c dateString timeString"
    if "calendar_date_before (y, m, d) (today_of c)" for timeString
    using that by (simp add: isPastAppointment_def ne Let_def first)
  show ?thesis using 1 2 3 by blast
qed

text \<open>On 2025-03-10 at noon the date 2020-01-01 is past, without a time and with the
  time 23:59.\<close>

theorem isPast_by_calendar_witness:
  "clock_in_range noon_10_march_2025
   \<and> parse_iso_date ''2020-01-01'' = Some (2020, 1, 1) \<and> valid_date 2020 1 1
   \<and> calendar_date_before (2020, 1, 1) (today_of noon_10_march_2025)
   \<and> isPastAppointment noon_10_march_2025 ''2020-01-01'' None
   \<and> isPastAppointment noon_10_march_2025 ''2020-01-01'' (Some ''23:59'')
   \<and> parse_iso_time ''23:59'' = Some (23, 59, 0)
   \<and> isPast_words noon_10_march_2025 (2020, 1, 1) (Some (23, 59, 0))"
proof -
  have c: "clock_in_range noon_10_march_2025"
    by (simp add: clock_in_range_def noon_10_march_2025_def)
  have p: "parse_iso_date ''2020-01-01'' = Some (2020, 1, 1)" by code_simp
  have v: "valid_date 2020 1 1" by (simp add: valid_date_def DaysInMonth_def)
  have t: "parse_iso_time ''23:59'' = Some (23, 59, 0)" by code_simp
  have b: "calendar_date_before (2020, 1, 1) (today_of noon_10_march_2025)"
    unfolding noon_10_march_2025_def by code_simp
  note th = isPast_by_calendar [OF c p _ v]
  have 1: "isPastAppointment noon_10_march_2025 ''2020-01-01'' None"
    and 2: "isPastAppointment noon_10_march_2025 ''2020-01-01'' (Some ''23:59'')"
    using th b by simp_all
  have 3: "isPast_words noon_10_march_2025 (2020, 1, 1) (Some (23, 59, 0))"
    using th t 2 by simp
  show ?thesis using c p v b 1 2 t 3 by simp
qed

text \<open>
  C6 as it is stated fails on the seconds: at 12:00:20 on 2025-03-10 an appointment of
  that day at 12:00:45 is not yet past, and \<^verbatim>\<open>isPastAppointment\<close>, which reads hours and
  minutes only, says it is. It also fails on a year below 100, which the Date constructor
  takes for a year of the twentieth century: in 1980 the date 0099-01-01 is read as
  1999-01-01 and is not past.
\<close>

theorem seconds_are_ignored:
  "parse_iso_date ''2025-03-10'' = Some (2025, 3, 10)
   \<and> parse_iso_time ''12:00:45'' = Some (12, 0, 45)
   \<and> today_of noon_and_20_seconds = (2025, 3, 10)
   \<and> isPastAppointment noon_and_20_seconds ''2025-03-10'' (Some ''12:00:45'')
   \<and> \<not> isPast_words noon_and_20_seconds (2025, 3, 10) (Some (12, 0, 45))
   \<and> parse_iso_date ''0099-01-01'' = Some (99, 1, 1)
   \<and> today_of new_year_1980 = (1980, 1, 1)
   \<and> \<not> isPastAppointment new_year_1980 ''0099-01-01'' None
   \<and> isPast_words new_year_1980 (99, 1, 1) None"
  unfolding noon_and_20_seconds_def new_year_1980_def by code_simp

subsection \<open>Dates that are not well-formed\<close>

lemma invalid_year_no_date:
  "year_component dateString = NaN \<Longrightarrow> local_date_of c dateString h mi = None"
  by (simp add: year_component_def local_date_of_def Let_def new_Date_def)

lemma invalid_date_same_day: "\<not> same_local_day c None b"
  by (simp add: same_local_day_def getFullYear_def)

text \<open>MyQueue's \<^verbatim>\<open>isToday\<close> reads the empty string as 1900-01-01, which is not today.\<close>

lemma MyQueue_isToday_empty:
  assumes c: "clock_in_range c"
  shows "\<not> MyQueue_isToday c []"
proof -
  let ?n = "MakeDay 1900 0 1"
  have c': "0 \<le> now_ms c" "abs (tza c) \<le> 86400000"
    using c by (simp_all add: clock_in_range_def)
  have d: "(1::int) \<le> DaysInMonth 0 (InLeapYear 1900)" by (simp add: DaysInMonth_def)
  have b: "- 683003 \<le> ?n" "?n < 2932897"
    using MakeDay_bounds [of 0 1 1900] d by simp_all
  have "abs (?n * msPerDay - tza c) \<le> 8640000000000000"
    using b c'(2) by (simp add: msPerDay_def abs_le_iff)
  then have a: "local_date_of c [] (Num 0) (Num 0) = Some (?n * msPerDay - tza c)"
    by (simp add: local_date_of_def Let_def at_index_def Number_js_def trim_def new_Date_nums
        MakeTime_def TimeClip_ok)
  have "YearFromTime (?n * msPerDay) = 1900"
    using fields_of_local_day(1) [of 0 1 1900 0] d by (simp add: msPerDay_def)
  moreover have "1969 \<le> YearFromTime (LocalTime c (now_ms c))"
    using local_year_recent [OF c'] .
  ultimately show ?thesis
    by (simp add: MyQueue_isToday_def Let_def a same_local_day_def getFullYear_def LocalTime_def)
qed

text \<open>
  C9, as the code has it. For the empty date string \<^verbatim>\<open>isToday\<close> and
  \<^verbatim>\<open>isPastAppointment\<close> are false, and so is MyQueue's \<^verbatim>\<open>isToday\<close> on a clock in
  range; for a date string whose text before the first \<^verbatim>\<open>-\<close> is not a number
  (\<^verbatim>\<open>Number\<close> gives \<^verbatim>\<open>NaN\<close>) they are false, and so are MyQueue's \<^verbatim>\<open>isToday\<close> and
  \<^verbatim>\<open>isPastAppointment\<close>; in both cases \<^verbatim>\<open>canCheckIn\<close> is false. The functions are
  total: no input makes them throw.
\<close>

theorem unreadable_year_fails_closed:
  "(dateString = [] \<longrightarrow>
      \<not> isToday c dateString \<and> \<not> isPastAppointment c dateString timeString
      \<and> (clock_in_range c \<longrightarrow> \<not> MyQueue_isToday c dateString))
   \<and> (year_component dateString = NaN \<longrightarrow>
      \<not> isToday c dateString \<and> \<not> isPastAppointment c dateString timeString
      \<and> \<not> MyQueue_isToday c dateString
      \<and> \<not> MyQueue_isPastAppointment c dateString timeString)
   \<and> (dateString = [] \<or> year_component dateString = NaN \<longrightarrow>
      \<not> canCheckIn c (a\<lparr>appointment_date := dateString\<rparr>))"
proof -
  have e: "\<not> isToday c []" "\<not> isPastAppointment c [] timeString"
    by (simp_all add: isToday_def isPastAppointment_def)
  have n: "\<not> isToday c dateString \<and> \<not> isPastAppointment c dateString timeString
      \<and> \<not> MyQueue_isToday c dateString
      \<and> \<not> MyQueue_isPastAppointment c dateString timeString"
    if nan: "year_component dateString = NaN"
  proof -
    note d = invalid_year_no_date [OF nan]
    have 1: "\<not> isToday c dateString"
      by (simp add: isToday_def Let_def d invalid_date_same_day)
    have 2: "\<not> MyQueue_isToday c dateString"
      by (simp add: MyQueue_isToday_def Let_def d invalid_date_same_day)
    have 3: "\<not> isPastAppointment c dateString timeString"
      using 1 by (simp add: isPastAppointment_def Let_def d date_lt_def split: option.splits)
    have 4: "\<not> MyQueue_isPastAppointment c dateString timeString"
      using 2
      by (simp add: MyQueue_isPastAppointment_def Let_def d date_lt_def split: option.splits)
    show ?thesis using 1 2 3 4 by simp
  qed
  have k: "\<not> canCheckIn c (a\<lparr>appointment_date := dateString\<rparr>)"
    if "dateString = [] \<or> year_component dateString = NaN"
    using that e n by (auto simp: canCheckIn_def)
  show ?thesis using e n k MyQueue_isToday_empty by blast
qed

theorem unreadable_year_fails_closed_witness:
  "year_component ''tomorrow'' = NaN
   \<and> year_component ''12px-03-10'' = NaN
   \<and> clock_in_range noon_10_march_2025
   \<and> \<not> isToday noon_10_march_2025 ''tomorrow''
   \<and> \<not> isPastAppointment noon_10_march_2025 ''tomorrow'' (Some ''09:00'')
   \<and> \<not> MyQueue_isToday noon_10_march_2025 ''tomorrow''
   \<and> \<not> MyQueue_isPastAppointment noon_10_march_2025 ''tomorrow'' (Some ''09:00'')
   \<and> \<not> isToday noon_10_march_2025 ''12px-03-10''
   \<and> \<not> isPastAppointment noon_10_march_2025 ''12px-03-10'' (Some ''09:00'')
   \<and> \<not> isToday noon_10_march_2025 ''''
   \<and> \<not> isPastAppointment noon_10_march_2025 '''' (Some ''09:00'')
   \<and> \<not> MyQueue_isToday noon_10_march_2025 ''''
   \<and> \<not> canCheckIn noon_10_march_2025 (appt 1 ''tomorrow'' ''09:00'' ''scheduled'')
   \<and> \<not> canCheckIn noon_10_march_2025 (appt 1 '''' ''09:00'' ''scheduled'')"
proof -
  have y: "year_component ''tomorrow'' = NaN" by code_simp
  have i: "year_component ''12px-03-10'' = NaN" by code_simp
  have c: "clock_in_range noon_10_march_2025"
    by (simp add: clock_in_range_def noon_10_march_2025_def)
  have a: "(appt 1 ''x'' ''09:00'' ''scheduled'')\<lparr>appointment_date := ''tomorrow''\<rparr>
             = appt 1 ''tomorrow'' ''09:00'' ''scheduled''"
    and b: "(appt 1 ''x'' ''09:00'' ''scheduled'')\<lparr>appointment_date := ''''\<rparr>
             = appt 1 '''' ''09:00'' ''scheduled''"
    by (simp_all add: appt_def)
  show ?thesis
    using c
      unreadable_year_fails_closed [of "''tomorrow''" noon_10_march_2025 "Some ''09:00''"
        "appt 1 ''x'' ''09:00'' ''scheduled''"]
      unreadable_year_fails_closed [of "''12px-03-10''" noon_10_march_2025 "Some ''09:00''"
        "appt 1 ''x'' ''09:00'' ''scheduled''"]
      unreadable_year_fails_closed [of "[]" noon_10_march_2025 "Some ''09:00''"
        "appt 1 ''x'' ''09:00'' ''scheduled''"]
    by (simp add: a b y i)
qed

text \<open>
  C9 as it is stated fails on a string that is not \<^verbatim>\<open>YYYY-MM-DD\<close> but starts with a
  number: a missing month or day counts as 1, so on 2025-01-01 the string \<^verbatim>\<open>2025\<close> is
  today and admits a check-in, and \<^verbatim>\<open>2020\<close> is past. \<^verbatim>\<open>Number\<close> reads more than
  decimal digits: on 2025-03-10 the strings \<^verbatim>\<open>0x7E9-03-10\<close> and \<^verbatim>\<open>2025.0-3-10\<close> are
  today. A time that is not a time counts as midnight: at noon, today's appointment at
  \<^verbatim>\<open>soon\<close> is past.
\<close>

theorem partial_date_is_accepted:
  "parse_iso_date ''2025'' = None
   \<and> isToday new_year_2025 ''2025''
   \<and> MyQueue_isToday new_year_2025 ''2025''
   \<and> canCheckIn new_year_2025 (appt 1 ''2025'' ''18:00'' ''scheduled'')
   \<and> parse_iso_date ''2020'' = None
   \<and> isPastAppointment noon_10_march_2025 ''2020'' None
   \<and> parse_iso_date ''0x7E9-03-10'' = None
   \<and> isToday noon_10_march_2025 ''0x7E9-03-10''
   \<and> parse_iso_date ''2025.0-3-10'' = None
   \<and> isToday noon_10_march_2025 ''2025.0-3-10''
   \<and> parse_iso_time ''soon'' = None
   \<and> isPastAppointment noon_10_march_2025 ''2025-03-10'' (Some ''soon'')"
  unfolding new_year_2025_def noon_10_march_2025_def appt_def by code_simp

subsection \<open>Formatting\<close>

lemma split_on_no_sep: "sep \<notin> set s \<Longrightarrow> split_on sep s = [s]"
  by (induction s) auto

lemma split_on_append:
  "sep \<notin> set a \<Longrightarrow> split_on sep (a @ sep # b) = a # split_on sep b"
  by (induction a) auto

lemma split_on_chars:
  "c \<in> set s \<Longrightarrow> c = sep \<or> (\<exists>p \<in> set (split_on sep s). c \<in> set p)"
proof (induction s)
  case Nil
  then show ?case by simp
next
  case (Cons x xs)
  show ?case
  proof (cases "x = sep")
    case True
    then show ?thesis using Cons by auto
  next
    case False
    obtain p ps where sp: "split_on sep xs = p # ps"
      using split_on_nonempty [of sep xs] by (cases "split_on sep xs") auto
    show ?thesis
    proof (cases "c = x")
      case True
      then show ?thesis using False sp by simp
    next
      case ne: False
      then have "c \<in> set xs" using Cons.prems by simp
      then have "c = sep \<or> (\<exists>q \<in> set (p # ps). c \<in> set q)"
        using Cons.IH sp by simp
      then show ?thesis using False sp by auto
    qed
  qed
qed

lemma fixed_digits_no_T:
  assumes "fixed_digits n p = Some v"
  shows "CHR ''T'' \<notin> set p"
proof
  assume "CHR ''T'' \<in> set p"
  moreover have "digits_value p 0 = Some v"
    using assms by (auto simp: fixed_digits_def split: if_splits)
  ultimately have "digit_val CHR ''T'' \<noteq> None" by (rule digits_value_chars [rotated])
  then show False by (simp add: digit_val_def)
qed

lemma those_Some_all: "those xs = Some ys \<Longrightarrow> x \<in> set xs \<Longrightarrow> x \<noteq> None"
  by (induction xs arbitrary: ys) (auto split: option.splits)

lemma parse_iso_date_no_T:
  assumes "parse_iso_date s = Some v"
  shows "CHR ''T'' \<notin> set s"
proof
  assume t: "CHR ''T'' \<in> set s"
  obtain y m d where v: "v = (y, m, d)" by (cases v) auto
  obtain ys ms ds where sp: "split_on CHR ''-'' s = [ys, ms, ds]"
    and f: "fixed_digits 4 ys = Some y" "fixed_digits 2 ms = Some m" "fixed_digits 2 ds = Some d"
    using parse_iso_date_parts [OF assms [unfolded v]] by blast
  have "\<exists>p \<in> set [ys, ms, ds]. CHR ''T'' \<in> set p"
    using split_on_chars [OF t, of "CHR ''-''"] sp by simp
  then show False using f fixed_digits_no_T by auto
qed

lemma parse_iso_time_no_T:
  assumes "parse_iso_time ts = Some v"
  shows "CHR ''T'' \<notin> set ts"
proof
  assume t: "CHR ''T'' \<in> set ts"
  let ?parts = "split_on CHR '':'' ts"
  define fields where "fields = (if length ?parts = 2 then ?parts @ [''00''] else ?parts)"
  have "those (map (fixed_digits 2) fields) \<noteq> None"
    using assms unfolding parse_iso_time_def Let_def fields_def [symmetric]
    by (auto split: if_splits option.splits)
  then obtain vs where th: "those (map (fixed_digits 2) fields) = Some vs" by auto
  obtain p where p: "p \<in> set ?parts" "CHR ''T'' \<in> set p"
    using split_on_chars [OF t, of "CHR '':''"] by auto
  then have "p \<in> set fields" by (simp add: fields_def)
  then have "fixed_digits 2 p \<noteq> None"
    using those_Some_all [OF th, of "fixed_digits 2 p"] by simp
  then show False using p(2) fixed_digits_no_T by auto
qed

lemma Date_parse_date_time:
  assumes pd: "parse_iso_date ds = Some (y, m, d)"
    and pt: "parse_iso_time ts = Some (h, mi, sec)"
  shows "Date_parse c (ds @ ''T'' @ ts) =
           TimeClip (MakeDay y (m - 1) d * msPerDay + MakeTime h mi sec 0 - tza c)"
proof -
  have "split_on CHR ''T'' (ds @ CHR ''T'' # ts) = [ds, ts]"
    using parse_iso_date_no_T [OF pd] parse_iso_time_no_T [OF pt]
    by (simp add: split_on_append split_on_no_sep)
  then show ?thesis
    by (simp add: Date_parse_def pd pt UTC_def MakeDate_def)
qed

lemma Date_parse_date_only:
  assumes pd: "parse_iso_date ds = Some (y, m, d)"
  shows "Date_parse c ds = TimeClip (MakeDay y (m - 1) d * msPerDay)"
proof -
  have "split_on CHR ''T'' ds = [ds]"
    using parse_iso_date_no_T [OF pd] by (simp add: split_on_no_sep)
  then show ?thesis
    by (simp add: Date_parse_def pd MakeDate_def)
qed

lemma MakeTime_range:
  assumes "0 \<le> h" "h \<le> 23" "0 \<le> mi" "mi \<le> 59" "0 \<le> sec" "sec \<le> 59"
  shows "0 \<le> MakeTime h mi sec 0" "MakeTime h mi sec 0 < msPerDay"
  using assms by (simp_all add: MakeTime_def msPerDay_def)

lemma hour_minute_of_MakeTime:
  assumes "0 \<le> h" "h \<le> 23" "0 \<le> mi" "mi \<le> 59" "0 \<le> sec" "sec \<le> 59"
  shows "MakeTime h mi sec 0 div 3600000 = h"
    and "(MakeTime h mi sec 0 div 60000) mod 60 = mi"
proof -
  have e1: "MakeTime h mi sec 0 = 3600000 * h + (mi * 60000 + sec * 1000)"
    by (simp add: MakeTime_def)
  show "MakeTime h mi sec 0 div 3600000 = h"
    by (rule int_div_pos_eq [OF e1]) (use assms in simp_all)
  have e2: "MakeTime h mi sec 0 = 60000 * (60 * h + mi) + sec * 1000"
    by (simp add: MakeTime_def)
  have q: "MakeTime h mi sec 0 div 60000 = 60 * h + mi"
    by (rule int_div_pos_eq [OF e2]) (use assms in simp_all)
  have e3: "60 * h + mi = 60 * h + mi" by simp
  show "(MakeTime h mi sec 0 div 60000) mod 60 = mi"
    unfolding q by (rule int_mod_pos_eq [OF e3]) (use assms in simp_all)
qed

text \<open>Given the date and the time of a booking, \<^verbatim>\<open>formatDateTime\<close> and MyQueue's
  \<^verbatim>\<open>formatDateTime\<close> show the booked calendar date, hour and minute, whatever the
  viewer's offset from UTC.\<close>

lemma formatDateTime_shows_booking:
  assumes pd: "parse_iso_date ds = Some (y, m, d)" and y: "100 \<le> y"
    and v: "valid_date y m d"
    and pt: "parse_iso_time ts = Some (h, mi, sec)"
    and tz: "abs (tza c) \<le> 86400000"
  shows "formatDateTime c ds (Some ts) = Long_date_time y (m - 1) d h mi"
    and "MyQueue_formatDateTime c ds (Some ts) = Long_date_time y (m - 1) d h mi"
proof -
  let ?n = "MakeDay y (m - 1) d"
  let ?t = "MakeTime h mi sec 0"
  note tp = parse_iso_time_parts [OF pt]
  have mr: "0 \<le> m - 1" "m - 1 \<le> 11" and dr: "1 \<le> d" "d \<le> DaysInMonth (m - 1) (InLeapYear y)"
    using v by (simp_all add: valid_date_def)
  have r: "0 \<le> ?t" "?t < msPerDay" using MakeTime_range [OF tp(4-9)] .
  have b: "- 683003 \<le> ?n" "?n < 2932897"
    using MakeDay_bounds [OF mr dr y parse_iso_date_year_range(2) [OF pd]] by simp_all
  have "abs (?n * msPerDay + ?t - tza c) \<le> 8640000000000000"
    using b tz r by (simp add: msPerDay_def abs_le_iff)
  then have parse: "Date_parse c (ds @ ''T'' @ ts) = Some (?n * msPerDay + ?t - tza c)"
    by (simp only: Date_parse_date_time [OF pd pt] TimeClip_ok)
  have f: "YearFromTime (?n * msPerDay + ?t) = y" "MonthFromTime (?n * msPerDay + ?t) = m - 1"
    "DateFromTime (?n * msPerDay + ?t) = d"
    using fields_of_local_day [OF mr dr r] .
  have hm: "HourFromTime (?n * msPerDay + ?t) = h" "MinFromTime (?n * msPerDay + ?t) = mi"
    using hour_minute_of_MakeTime [OF tp(4-9)]
    by (simp_all add: HourFromTime_def MinFromTime_def Day_plus(2) [OF r])
  have shown: "toLocaleDateString_hm c (Some (?n * msPerDay + ?t - tza c))
                 = Long_date_time y (m - 1) d h mi"
    by (simp add: toLocaleDateString_hm_def LocalTime_def Let_def f hm)
  show "formatDateTime c ds (Some ts) = Long_date_time y (m - 1) d h mi"
    using parse_iso_date_nonempty [OF pd] tp(1)
    by (simp add: formatDateTime_def Let_def parse shown del: append.simps)
  show "MyQueue_formatDateTime c ds (Some ts) = Long_date_time y (m - 1) d h mi"
    using tp(1)
    by (simp add: MyQueue_formatDateTime_def Let_def parse shown del: append.simps)
qed

lemma formatDate_instant:
  assumes pd: "parse_iso_date ds = Some (y, m, d)" and y: "100 \<le> y"
    and v: "valid_date y m d"
  shows "formatDate c ds = toLocaleDateString c (Some (MakeDay y (m - 1) d * msPerDay))"
proof -
  let ?n = "MakeDay y (m - 1) d"
  have mr: "0 \<le> m - 1" "m - 1 \<le> 11" and dr: "1 \<le> d" "d \<le> DaysInMonth (m - 1) (InLeapYear y)"
    using v by (simp_all add: valid_date_def)
  have b: "- 683003 \<le> ?n" "?n < 2932897"
    using MakeDay_bounds [OF mr dr y parse_iso_date_year_range(2) [OF pd]] by simp_all
  have "abs (?n * msPerDay) \<le> 8640000000000000"
    using b by (simp add: msPerDay_def abs_le_iff)
  then have "Date_parse c ds = Some (?n * msPerDay)"
    by (simp only: Date_parse_date_only [OF pd] TimeClip_ok)
  then show ?thesis
    using parse_iso_date_nonempty [OF pd] by (simp add: formatDate_def Let_def)
qed

text \<open>\<^verbatim>\<open>formatDate\<close> shows the booked date to a viewer on or east of Greenwich, and
  another date to every viewer west of it.\<close>

lemma formatDate_east_of_Greenwich:
  assumes pd: "parse_iso_date ds = Some (y, m, d)" and y: "100 \<le> y"
    and v: "valid_date y m d"
    and tz: "0 \<le> tza c" "tza c < 86400000"
  shows "formatDate c ds = Long_date y (m - 1) d"
proof -
  have mr: "0 \<le> m - 1" "m - 1 \<le> 11" and dr: "1 \<le> d" "d \<le> DaysInMonth (m - 1) (InLeapYear y)"
    using v by (simp_all add: valid_date_def)
  have r: "0 \<le> tza c" "tza c < msPerDay" using tz by (simp_all add: msPerDay_def)
  show ?thesis
    using fields_of_local_day [OF mr dr r]
    by (simp add: formatDate_instant [OF pd y v] toLocaleDateString_def LocalTime_def Let_def)
qed

lemma formatDate_west_of_Greenwich:
  assumes pd: "parse_iso_date ds = Some (y, m, d)" and y: "100 \<le> y"
    and v: "valid_date y m d"
    and tz: "- 86400000 \<le> tza c" "tza c < 0"
  shows "formatDate c ds \<noteq> Long_date y (m - 1) d"
proof
  let ?n = "MakeDay y (m - 1) d"
  let ?l = "?n * msPerDay + tza c"
  assume eq: "formatDate c ds = Long_date y (m - 1) d"
  have r: "0 \<le> msPerDay + tza c" "msPerDay + tza c < msPerDay"
    using tz by (simp_all add: msPerDay_def)
  have "?l = (?n - 1) * msPerDay + (msPerDay + tza c)" by (simp add: algebra_simps)
  then have day: "Day ?l = ?n - 1" by (simp only: Day_plus(1) [OF r])
  have "YearFromTime ?l = y" "MonthFromTime ?l = m - 1" "DateFromTime ?l = d"
    using eq
    by (simp_all add: formatDate_instant [OF pd y v] toLocaleDateString_def LocalTime_def Let_def)
  then have "MakeDay y (m - 1) d = Day ?l" using day_of_fields [of ?l] by simp
  then show False using day by simp
qed

text \<open>
  C4. \<^verbatim>\<open>formatDate\<close> hands the date string to the Date constructor, which reads a date
  alone as UTC midnight; the branch that builds a local date from the components is
  reached only when that fails. Five hours west of Greenwich the appointment booked for
  2025-03-10 is shown as March 9; on UTC it is shown as March 10. \<^verbatim>\<open>formatDateTime\<close>,
  given the date and the time 14:30:00, shows March 10, 14:30 in both views.
\<close>

theorem formatDate_shifts_west_of_Greenwich:
  "formatDate five_hours_west ''2025-03-10'' = Long_date 2025 2 9
   \<and> formatDate noon_10_march_2025 ''2025-03-10'' = Long_date 2025 2 10
   \<and> formatDateTime five_hours_west ''2025-03-10'' (Some ''14:30:00'')
       = Long_date_time 2025 2 10 14 30
   \<and> MyQueue_formatDateTime five_hours_west ''2025-03-10'' (Some ''14:30:00'')
       = Long_date_time 2025 2 10 14 30"
  unfolding five_hours_west_def noon_10_march_2025_def by code_simp

subsection \<open>The reconciliation pass\<close>

lemma through_interceptor_outcome:
  "through_interceptor outcome w = (if unauthorized outcome then signed_out w else w, outcome)"
  by (simp add: through_interceptor_def on_fulfilled_def on_rejected_def unauthorized_def
      signed_out_def removeItem_def split: sum.splits)



lemma fetch_queue_status_lookup:
  "queueStatus (fetch_queue_status b as p) k =
     (case getQueuePosition b k of
        Inr data \<Rightarrow> if k \<in> id_appt ` set as then Some data else queueStatus p k
      | Inl e \<Rightarrow> queueStatus p k)"
  by (induction as arbitrary: p)
    (auto simp: emit_def through_interceptor_outcome split: sum.splits)




text \<open>The map after a pass is the map before it, overwritten at the ids of the active
  appointments whose request succeeded.\<close>

lemma fetchAppointments_queueStatus:
  "queueStatus (fetchAppointments b p) k =
     (case getMyAppointments b of
        Inl e \<Rightarrow> queueStatus p k
      | Inr data \<Rightarrow>
         (case getQueuePosition b k of
            Inr qs \<Rightarrow>
              if k \<in> id_appt ` set (activeAppointments data) then Some qs
              else queueStatus p k
          | Inl e \<Rightarrow> queueStatus p k))"
  by (simp add: fetchAppointments_def Let_def emit_def fetch_queue_status_lookup
      through_interceptor_outcome split: sum.splits)

lemma Dashboard_same_map:
  "queueStatus (Dashboard_fetchAppointments b p) = queueStatus (fetchAppointments b p)"
proof (rule ext)
  fix k
  show "queueStatus (Dashboard_fetchAppointments b p) k = queueStatus (fetchAppointments b p) k"
    unfolding fetchAppointments_queueStatus
    by (simp add: Dashboard_fetchAppointments_def Let_def emit_def fetch_queue_status_lookup
        through_interceptor_outcome split: sum.splits)
qed








text \<open>The status filter of the two pages: an id none of whose appointments is confirmed
  or in progress keeps the entry it had, or stays absent.\<close>

lemma inactive_status_never_added:
  assumes "getMyAppointments b = Inr data"
    and "\<forall>a \<in> set data. id_appt a = k \<longrightarrow>
           status a \<noteq> ''confirmed'' \<and> status a \<noteq> ''in_progress''"
  shows "queueStatus (fetchAppointments b p) k = queueStatus p k"
proof -
  have "k \<notin> id_appt ` set (activeAppointments data)"
    using assms(2) by (auto simp: activeAppointments_def)
  then show ?thesis
    using assms(1) by (auto simp add: fetchAppointments_queueStatus split: sum.splits)
qed

text \<open>MyQueue does gate the request on the date: an appointment that is not today's gets
  no queue information, whatever the backend would answer.\<close>

lemma MyQueue_gates_on_today:
  "\<not> MyQueue_isToday c (appointment_date a) \<Longrightarrow> queue_info_of c b a = None"
  by (simp add: queue_info_of_def)

text \<open>
  C1. The pass of Appointments.tsx and Dashboard.tsx filters on the status alone. On
  2025-03-10 a confirmed appointment dated 2025-03-11 whose position request succeeds
  gets its id into the map, which did not hold it before.
\<close>

theorem future_confirmed_appointment_gets_key:
  "\<not> isToday noon_10_march_2025 (appointment_date (appt 5 ''2025-03-11'' ''09:00'' ''confirmed''))
   \<and> queueStatus initial_page 5 = None
   \<and> queueStatus
       (fetchAppointments
          (backend_of [appt 5 ''2025-03-11'' ''09:00'' ''confirmed'']
             (\<lambda>i. Inr \<lparr>position = 1, estimated_wait_time = 5\<rparr>))
          initial_page) 5
       = Some \<lparr>position = 1, estimated_wait_time = 5\<rparr>
   \<and> queueStatus
       (Dashboard_fetchAppointments
          (backend_of [appt 5 ''2025-03-11'' ''09:00'' ''confirmed'']
             (\<lambda>i. Inr \<lparr>position = 1, estimated_wait_time = 5\<rparr>))
          initial_page) 5
       = Some \<lparr>position = 1, estimated_wait_time = 5\<rparr>"
proof -
  have "\<not> isToday noon_10_march_2025 ''2025-03-11''"
    unfolding noon_10_march_2025_def by code_simp
  then show ?thesis
    by (simp add: Dashboard_same_map fetchAppointments_queueStatus backend_of_def
        initial_page_def appt_def activeAppointments_def)
qed

text \<open>
  C2. Every update of the pass spreads the previous map, and nothing resets the map when
  a pass starts. An entry stored for appointment 7 by an earlier pass is still there
  after a pass in which the appointment is cancelled, and after a pass in which it is
  still confirmed but its position request is rejected.
\<close>

theorem stale_entry_survives_pass:
  "queueStatus
     (fetchAppointments
        (backend_of [appt 7 ''2025-03-10'' ''09:00'' ''cancelled''] (\<lambda>i. Inl no_reply))
        (initial_page\<lparr>queueStatus := [7 \<mapsto> \<lparr>position = 3, estimated_wait_time = 15\<rparr>]\<rparr>)) 7
     = Some \<lparr>position = 3, estimated_wait_time = 15\<rparr>
   \<and> queueStatus
       (fetchAppointments
          (backend_of [appt 7 ''2025-03-10'' ''09:00'' ''confirmed''] (\<lambda>i. Inl no_reply))
          (initial_page\<lparr>queueStatus := [7 \<mapsto> \<lparr>position = 3, estimated_wait_time = 15\<rparr>]\<rparr>)) 7
       = Some \<lparr>position = 3, estimated_wait_time = 15\<rparr>
   \<and> queueStatus
       (Dashboard_fetchAppointments
          (backend_of [appt 7 ''2025-03-10'' ''09:00'' ''confirmed''] (\<lambda>i. Inl no_reply))
          (initial_page\<lparr>queueStatus := [7 \<mapsto> \<lparr>position = 3, estimated_wait_time = 15\<rparr>]\<rparr>)) 7
       = Some \<lparr>position = 3, estimated_wait_time = 15\<rparr>"
  by (simp add: Dashboard_same_map fetchAppointments_queueStatus backend_of_def
      initial_page_def)







subsection \<open>Check-in eligibility\<close>

text \<open>
  C5. \<^verbatim>\<open>canCheckIn\<close> holds exactly when the status is \<^verbatim>\<open>scheduled\<close>, the date is
  today and the appointment is not past; for every other status it is false, whatever the
  date and time.
\<close>

theorem canCheckIn_iff:
  "canCheckIn c a =
     (status a = ''scheduled'' \<and> isToday c (appointment_date a) \<and>
      \<not> isPastAppointment c (appointment_date a) (Some (scheduled_time a)))
   \<and> (status a \<noteq> ''scheduled'' \<longrightarrow> \<not> canCheckIn c a)"
  by (simp add: canCheckIn_def)

theorem canCheckIn_iff_witness:
  "canCheckIn noon_10_march_2025 (appt 1 ''2025-03-10'' ''14:30:00'' ''scheduled'')
   \<and> \<not> canCheckIn noon_10_march_2025 (appt 1 ''2025-03-10'' ''14:30:00'' ''confirmed'')
   \<and> \<not> canCheckIn noon_10_march_2025 (appt 1 ''2025-03-10'' ''09:00:00'' ''scheduled'')
   \<and> \<not> canCheckIn noon_10_march_2025 (appt 1 ''2025-03-11'' ''14:30:00'' ''scheduled'')"
proof -
  have t: "isToday noon_10_march_2025 ''2025-03-10''"
    and n: "\<not> isToday noon_10_march_2025 ''2025-03-11''"
    and f: "\<not> isPastAppointment noon_10_march_2025 ''2025-03-10'' (Some ''14:30:00'')"
    and e: "isPastAppointment noon_10_march_2025 ''2025-03-10'' (Some ''09:00:00'')"
    unfolding noon_10_march_2025_def by code_simp+
  show ?thesis
    using t n f e
      canCheckIn_iff [of noon_10_march_2025 "appt 1 ''2025-03-10'' ''14:30:00'' ''scheduled''"]
      canCheckIn_iff [of noon_10_march_2025 "appt 1 ''2025-03-10'' ''14:30:00'' ''confirmed''"]
      canCheckIn_iff [of noon_10_march_2025 "appt 1 ''2025-03-10'' ''09:00:00'' ''scheduled''"]
      canCheckIn_iff [of noon_10_march_2025 "appt 1 ''2025-03-11'' ''14:30:00'' ''scheduled''"]
    by (simp add: appt_def)
qed

subsection \<open>The check-in handlers\<close>

lemma handleCheckIn_refuses:
  assumes "find (\<lambda>apt. id_appt apt = appointmentId) (appointments p) = Some a"
    and "\<not> canCheckIn c a"
  shows "handleCheckIn c b appointmentId p
           = emit [Toast_error (JString (check_in_refusal c a))] p"
  using assms by (simp add: handleCheckIn_def)

lemma handleCheckIn_unknown:
  assumes "find (\<lambda>apt. id_appt apt = appointmentId) (appointments p) = None"
  shows "handleCheckIn c b appointmentId p
           = emit [Toast_error (JString ''Appointment not found'')] p"
  using assms by (simp add: handleCheckIn_def)

text \<open>The handler of Appointments.tsx and Dashboard.tsx: when no appointment with the
  given id may check in, the handler only raises an error toast; no request is sent.\<close>

lemma handleCheckIn_no_request:
  assumes "\<forall>a \<in> set (appointments p). id_appt a = appointmentId \<longrightarrow> \<not> canCheckIn c a"
  shows "\<exists>m. effects (handleCheckIn c b appointmentId p) = effects p @ [Toast_error m]"
proof (cases "find (\<lambda>apt. id_appt apt = appointmentId) (appointments p)")
  case None
  then show ?thesis by (simp add: handleCheckIn_unknown emit_def)
next
  case (Some a)
  then have "a \<in> set (appointments p)" "id_appt a = appointmentId"
    by (auto simp: find_Some_iff)
  with assms have "\<not> canCheckIn c a" by blast
  with Some show ?thesis by (simp add: handleCheckIn_refuses emit_def)
qed

text \<open>
  C7. For an appointment dated yesterday \<^verbatim>\<open>canCheckIn\<close> is false. The handler of
  Appointments.tsx refuses it with a toast and sends nothing; MyQueue's handler, given the
  same id, sends \<^verbatim>\<open>POST /queue/checkin/9\<close>.
\<close>

theorem MyQueue_check_in_unguarded:
  "\<not> canCheckIn noon_10_march_2025 (appt 9 ''2025-03-09'' ''09:00:00'' ''scheduled'')
   \<and> effects
       (handleCheckIn noon_10_march_2025
          (backend_of [appt 9 ''2025-03-09'' ''09:00:00'' ''scheduled''] (\<lambda>i. Inl no_reply)) 9
          (initial_page\<lparr>appointments := [appt 9 ''2025-03-09'' ''09:00:00'' ''scheduled'']\<rparr>))
       = [Toast_error (JString ''You can only check in on the appointment date'')]
   \<and> POST_queue_checkin 9 \<in> set
       (queue_effects
          (MyQueue_handleCheckIn noon_10_march_2025
             (backend_of [appt 9 ''2025-03-09'' ''09:00:00'' ''scheduled''] (\<lambda>i. Inl no_reply)) 9
             (initial_queue_page
                \<lparr>queueData := [(appt 9 ''2025-03-09'' ''09:00:00'' ''scheduled'', None)]\<rparr>)))"
proof -
  have n: "\<not> isToday noon_10_march_2025 ''2025-03-09''"
    unfolding noon_10_march_2025_def by code_simp
  have nq: "\<not> MyQueue_isToday noon_10_march_2025 ''2025-03-09''"
    unfolding noon_10_march_2025_def by code_simp
  show ?thesis
    using n nq
    by (simp add: canCheckIn_def handleCheckIn_def check_in_refusal_def appt_def
        initial_page_def emit_def MyQueue_handleCheckIn_def backend_of_def queue_emit_def
        fetchQueueData_def initial_queue_page_def MyQueue_active_def queue_requests_def
        through_interceptor_outcome unauthorized_def no_reply_def Let_def)
qed

subsection \<open>Error payloads\<close>

text \<open>
  C8. The catch block of \<^verbatim>\<open>handleCheckIn\<close> passes a truthy \<^verbatim>\<open>detail\<close> to the toast as
  it is: a list of field errors and a nested object reach the toast unchanged, not as one
  string. The catch block of \<^verbatim>\<open>handleCancelAppointment\<close> does not read the payload: a
  string detail is replaced by the fixed text.
\<close>

theorem error_detail_not_normalised:
  "check_in_failure
     \<lparr>response_status = Some 422,
      response_detail = Some (JArray [JObject [(''msg'', JString ''field required'')]])\<rparr>
     = JArray [JObject [(''msg'', JString ''field required'')]]
   \<and> check_in_failure
       \<lparr>response_status = Some 400,
        response_detail = Some (JObject [(''msg'', JString ''Appointment is not scheduled'')])\<rparr>
       = JObject [(''msg'', JString ''Appointment is not scheduled'')]
   \<and> effects
       (handleCancelAppointment
          \<lparr>getMyAppointments = Inr [appt 3 ''2025-03-10'' ''09:00:00'' ''scheduled''],
           getQueuePosition = (\<lambda>i. Inl no_reply),
           checkIn = (\<lambda>i. Inr ()),
           cancelAppointment =
             (\<lambda>i. Inl \<lparr>response_status = Some 400,
                        response_detail =
                          Some (JString ''Cannot cancel a completed appointment'')\<rparr>)\<rparr>
          (initial_page
             \<lparr>appointmentToCancel := Some (appt 3 ''2025-03-10'' ''09:00:00'' ''scheduled'')\<rparr>))
       = [PUT_appointments_cancel 3, Toast_error (JString ''Failed to cancel appointment''),
          Console_error]"
  by (simp add: check_in_failure_def handleCancelAppointment_def emit_def
      initial_page_def appt_def through_interceptor_outcome unauthorized_def)

subsection \<open>The response interceptor\<close>

text \<open>
  C10. A rejection whose response status is 401 removes \<^verbatim>\<open>token\<close> from
  \<^verbatim>\<open>localStorage\<close>, sets the location to \<^verbatim>\<open>/login\<close> and is passed on as a rejection
  with the same error; every other rejection leaves the browser state as it was and is
  passed on with the same error.
\<close>

theorem unauthorized_clears_token:
  "(response_status error = Some 401 \<longrightarrow>
      on_rejected error w =
        (w\<lparr>localStorage := (localStorage w)(''token'' := None), location_href := ''/login''\<rparr>,
         Inl error))
   \<and> (response_status error \<noteq> Some 401 \<longrightarrow> on_rejected error w = (w, Inl error))"
  by (simp add: on_rejected_def removeItem_def)

theorem unauthorized_clears_token_witness:
  "(let w = \<lparr>localStorage = [''token'' \<mapsto> ''abc'', ''theme'' \<mapsto> ''dark''],
             location_href = ''/appointments''\<rparr>;
        e401 = \<lparr>response_status = Some 401, response_detail = None\<rparr>;
        e500 = \<lparr>response_status = Some 500, response_detail = None\<rparr>
    in on_rejected e401 w =
         (\<lparr>localStorage = [''theme'' \<mapsto> ''dark''], location_href = ''/login''\<rparr>,
          Inl e401 :: axios_error + unit)
     \<and> on_rejected e500 w = (w, Inl e500 :: axios_error + unit)
     \<and> on_rejected no_reply w = (w, Inl no_reply :: axios_error + unit))"
proof -
  define w where "w = \<lparr>localStorage = [''token'' \<mapsto> ''abc'', ''theme'' \<mapsto> ''dark''],
             location_href = ''/appointments''\<rparr>"
  define e401 where "e401 = \<lparr>response_status = Some 401, response_detail = None\<rparr>"
  define e500 where "e500 = \<lparr>response_status = Some 500, response_detail = None\<rparr>"
  have a: "response_status e401 = Some 401" by (simp add: e401_def)
  have b: "response_status e500 \<noteq> Some 401" by (simp add: e500_def)
  have c: "response_status no_reply \<noteq> Some 401" by (simp add: no_reply_def)
  have "on_rejected e401 w =
         (\<lparr>localStorage = [''theme'' \<mapsto> ''dark''], location_href = ''/login''\<rparr>,
          Inl e401 :: axios_error + unit)"
    using unauthorized_clears_token [of e401 w] a by (simp add: w_def)
  moreover have "on_rejected e500 w = (w, Inl e500 :: axios_error + unit)"
    using unauthorized_clears_token [of e500 w] b by simp
  moreover have "on_rejected no_reply w = (w, Inl no_reply :: axios_error + unit)"
    using unauthorized_clears_token [of no_reply w] c by simp
  ultimately show ?thesis
    unfolding Let_def w_def [symmetric] e401_def [symmetric] e500_def [symmetric]
    by blast
qed

end
